theory Spec2Isabelle
  imports Main
begin

text \<open>
  The Go package \<open>promise\<close> (\<open>promisify.go\<close>): the type \<open>Promise\<close> with \<open>Then\<close>,
  \<open>Resolve\<close> and \<open>Reject\<close>, and \<open>Promisify\<close>, which turns a function into one that
  returns a promise. The promises live in a store and every operation takes the world
  and returns the new one; a call returns a value or panics; the goroutines that the
  package starts wait in the world until the scheduler runs them.
\<close>

section \<open>Values, panics and types\<close>

text \<open>
  Go error values are represented by the string their \<open>Error\<close> method returns.
\<close>

datatype goerror = errorString string

fun Error :: "goerror \<Rightarrow> string" where
  "Error (errorString s) = s"

text \<open>
  The dynamic values an \<open>interface{}\<close> holds: \<open>VNil\<close> is the nil interface,
  \<open>VErr\<close> an error value, \<open>VSlice\<close> a \<open>[]interface{}\<close>.
\<close>

datatype val = VNil | VInt int | VStr string | VErr goerror | VSlice "val list"

text \<open>
  A Go call either returns or panics with a value; \<open>Panic x\<close> is \<open>panic(x)\<close>
  unwinding out of the call.
\<close>

datatype 'a result = Ok 'a | Panic val

section \<open>The promise state machine\<close>

text \<open>
  \<open>type state int\<close> with the constants \<open>pending\<close> (\<open>iota\<close>, that is 0),
  \<open>fulfilled\<close> and \<open>rejected\<close>; the package stores no other value in a state, so
  the type is the enumeration of the three. \<open>pending\<close>, being 0, is the zero value of
  the type. The \<open>default\<close> branch of \<open>String\<close>, for another value, has no
  counterpart.
\<close>

datatype state = pending | fulfilled | rejected

fun String :: "state \<Rightarrow> string" where
  "String pending = ''pending''"
| "String fulfilled = ''fulfilled''"
| "String rejected = ''rejected''"

type_synonym addr = nat

text \<open>
  A \<open>Callback\<close> is a Go function value \<open>func(value interface{}) interface{}\<close>.
  \<^item> \<open>Fn n f\<close> is a function supplied by the user of the package: it returns or panics as
    \<open>f\<close> says, and every call of it is recorded with its argument in the trace of the
    world under the label \<open>n\<close> (the trace stands for what the function lets the outside
    see, as the channel send of the test's \<open>incrementor.process\<close>).
  \<^item> \<open>undefined_cb\<close> is the package's function \<open>undefined\<close>.
  \<^item> \<open>WrapSuccess p onSuccess\<close> and \<open>WrapFailure p onFailure\<close> are the two closures
    that \<open>p.wrap(success, failure)\<close> returns; they capture the pointer \<open>p\<close> and one of
    the callbacks, which may be nil (\<open>None\<close>). The parameters \<open>success\<close> and
    \<open>failure\<close> of the source are called \<open>onSuccess\<close> and \<open>onFailure\<close>, the
    fields of the struct keeping the short names.
\<close>

datatype Callback =
    Fn nat "val \<Rightarrow> val result"
  | undefined_cb
  | WrapSuccess addr "Callback option"
  | WrapFailure addr "Callback option"

text \<open>The struct \<open>Promise\<close>; its field \<open>value\<close> is called \<open>pvalue\<close> here.\<close>

record Promise =
  state :: state
  pvalue :: val
  success :: "Callback option list"
  failure :: "Callback option list"

text \<open>
  The zero value of the struct, what \<open>var p Promise\<close> declares: every field has the
  zero value of its type, 0 (\<open>pending\<close>), the nil interface and two nil slices.
\<close>

definition zero_Promise :: Promise where
  "zero_Promise = \<lparr>state = pending, pvalue = VNil, success = [], failure = []\<rparr>"

section \<open>Wrapped callables\<close>

text \<open>
  \<open>reflect.Type\<close> of a function, as far as the package reads it: the declared result
  types. \<open>TError\<close> is the interface type \<open>error\<close>; \<open>TNamed\<close> is any other named type
  (one that implements \<open>error\<close> included).
\<close>

datatype gotype = TBool | TInt | TString | TError | TInterface | TNamed string

record functype =
  in_types :: "gotype list"
  out_types :: "gotype list"

definition NumOut :: "functype \<Rightarrow> nat" where
  "NumOut t = length (out_types t)"

definition Out :: "functype \<Rightarrow> nat \<Rightarrow> gotype" where
  "Out t i = out_types t ! i"

text \<open>
  \<open>reflect.Value\<close>: the zero Value (\<open>Invalid\<close>) or a value. \<open>reflect.ValueOf(nil)\<close> is
  the zero Value.
\<close>

datatype Value = Invalid | ValueOf' val

fun ValueOf :: "val \<Rightarrow> Value" where
  "ValueOf VNil = Invalid"
| "ValueOf v = ValueOf' v"

fun IsValid :: "Value \<Rightarrow> bool" where
  "IsValid Invalid = False"
| "IsValid (ValueOf' v) = True"

text \<open>
  \<open>IsNil\<close> and \<open>Interface\<close> panic on the zero Value. The package calls \<open>IsNil\<close>
  on a result declared of type \<open>error\<close> only: a Value of interface kind, which is nil
  when it holds \<open>VNil\<close>.
\<close>

definition zeroValuePanic :: val where
  "zeroValuePanic = VErr (errorString ''reflect: call of reflect.Value method on zero Value'')"

fun IsNil :: "Value \<Rightarrow> bool result" where
  "IsNil Invalid = Panic zeroValuePanic"
| "IsNil (ValueOf' v) = Ok (v = VNil)"

fun Interface :: "Value \<Rightarrow> val result" where
  "Interface Invalid = Panic zeroValuePanic"
| "Interface (ValueOf' v) = Ok v"

text \<open>
  A function value seen through \<open>reflect\<close>: its type, and what \<open>Call\<close> does with the
  arguments: the results, or the panic of the function (or of \<open>Call\<close> itself when the
  arguments do not fit).
\<close>

record Func =
  Type :: functype
  Call :: "Value list \<Rightarrow> Value list result"

section \<open>Goroutines and the world\<close>

text \<open>
  The two \<open>go\<close> statements of the package: \<open>go sendSoon(val, callbacks)\<close> in \<open>flush\<close>
  and the \<open>go func() {...}()\<close> of \<open>Promisify\<close>, which captures the function, the
  arguments and the promise.
\<close>

datatype goroutine =
    GoSendSoon val "Callback option list"
  | GoPromisify Func "val list" addr

text \<open>
  The world: the promises allocated so far (\<open>fresh\<close> is the next free address), the
  goroutines started and not yet run, the trace of the user callbacks called, and the
  value of a panic that no one recovered, which ends the program.
\<close>

record world =
  heap :: "addr \<Rightarrow> Promise"
  fresh :: addr
  goroutines :: "goroutine list"
  trace :: "(nat \<times> val) list"
  crashed :: "val option"

definition world0 :: world where
  "world0 = \<lparr>heap = (\<lambda>_. zero_Promise), fresh = 0, goroutines = [], trace = [], crashed = None\<rparr>"

definition new_Promise :: "world \<Rightarrow> addr \<times> world" where
  "new_Promise w = (fresh w, w\<lparr>heap := (heap w)(fresh w := zero_Promise), fresh := Suc (fresh w)\<rparr>)"

definition go :: "goroutine \<Rightarrow> world \<Rightarrow> world" where
  "go g w = w\<lparr>goroutines := goroutines w @ [g]\<rparr>"

definition upd :: "addr \<Rightarrow> (Promise \<Rightarrow> Promise) \<Rightarrow> world \<Rightarrow> world" where
  "upd p f w = w\<lparr>heap := (heap w)(p := f (heap w p))\<rparr>"

subsection \<open>safe, commit, flush, Resolve, Reject\<close>

definition safe :: "Callback option \<Rightarrow> Callback" where
  "safe c = (case c of Some cb \<Rightarrow> cb | None \<Rightarrow> undefined_cb)"

definition commit_panic :: "state \<Rightarrow> val" where
  "commit_panic s =
     VErr (errorString (''Cannot change p promise that isn'' @ [CHR 0x27] @ ''t pending: '' @ String s))"

definition commit :: "addr \<Rightarrow> state \<Rightarrow> val \<Rightarrow> Callback option list \<Rightarrow> world \<Rightarrow> unit result \<times> world" where
  "commit p s v callbacks w =
     (if state (heap w p) \<noteq> pending then (Panic (commit_panic (state (heap w p))), w)
      else (Ok (), upd p (\<lambda>r. r\<lparr>pvalue := v, state := s\<rparr>) w))"

definition flush :: "addr \<Rightarrow> world \<Rightarrow> world" where
  "flush p w =
     (if state (heap w p) = pending then w
      else
        let w1 = (if state (heap w p) = fulfilled
                  then go (GoSendSoon (pvalue (heap w p)) (success (heap w p))) w
                  else if state (heap w p) = rejected
                  then go (GoSendSoon (pvalue (heap w p)) (failure (heap w p))) w
                  else w)
        in upd p (\<lambda>r. r\<lparr>success := [], failure := []\<rparr>) w1)"

definition Resolve :: "addr \<Rightarrow> val \<Rightarrow> world \<Rightarrow> val result \<times> world" where
  "Resolve p v w =
     (case commit p fulfilled v (success (heap w p)) w of
        (Panic x, w1) \<Rightarrow> (Panic x, w1)
      | (Ok _, w1) \<Rightarrow> (Ok v, flush p w1))"

definition Reject :: "addr \<Rightarrow> val \<Rightarrow> world \<Rightarrow> val result \<times> world" where
  "Reject p err w =
     (case commit p rejected err (failure (heap w p)) w of
        (Panic x, w1) \<Rightarrow> (Panic x, w1)
      | (Ok _, w1) \<Rightarrow> (Ok err, flush p w1))"

subsection \<open>wrap and Then\<close>

text \<open>
  \<open>call c v w\<close> is the call \<open>c(v)\<close> of a callback in the world \<open>w\<close>. The success
  closure computes \<open>safe(success)(val)\<close>, then \<open>p.Resolve\<close> of the result, and its
  deferred function recovers a panic of either; the failure closure computes
  \<open>safe(failure)(val)\<close>, then \<open>p.Reject\<close> of the result, and defers nothing.
\<close>

text \<open>
  The deferred function of the success closure,
  \<^verbatim>\<open>if x := recover(); x != nil { p.Reject(x) }\<close>, run while the closure panics with
  \<open>x\<close>. \<open>recover\<close> stops the panic, so the closure returns the zero value of its result
  type, unless \<open>Reject\<close> panics in turn. After \<open>panic(nil)\<close>, \<open>recover\<close> returns
  nil (as it did in the Go of the package; since Go 1.21 it returns a run-time error
  instead), the panic is stopped and \<open>Reject\<close> is not called.
\<close>

definition recovered :: "addr \<Rightarrow> val \<Rightarrow> world \<Rightarrow> val result \<times> world" where
  "recovered p x w =
     (if x \<noteq> VNil
      then (case Reject p x w of
              (Panic y, w1) \<Rightarrow> (Panic y, w1)
            | (Ok _, w1) \<Rightarrow> (Ok VNil, w1))
      else (Ok VNil, w))"

function call :: "Callback \<Rightarrow> val \<Rightarrow> world \<Rightarrow> val result \<times> world" where
  "call (Fn n f) v w = (f v, w\<lparr>trace := trace w @ [(n, v)]\<rparr>)"
| "call undefined_cb v w = (Ok v, w)"
| "call (WrapSuccess p onSuccess) v w =
     (case call (safe onSuccess) v w of
        (Panic x, w1) \<Rightarrow> recovered p x w1
      | (Ok r, w1) \<Rightarrow>
          (case Resolve p r w1 of
             (Panic x, w2) \<Rightarrow> recovered p x w2
           | (Ok r', w2) \<Rightarrow> (Ok r', w2)))"
| "call (WrapFailure p onFailure) v w =
     (case call (safe onFailure) v w of
        (Panic x, w1) \<Rightarrow> (Panic x, w1)
      | (Ok r, w1) \<Rightarrow> Reject p r w1)"
  by pat_completeness auto
termination
  by (relation "measure (\<lambda>(c, v, w). size c)") (auto simp: safe_def split: option.splits)

definition wrap :: "addr \<Rightarrow> Callback option \<Rightarrow> Callback option \<Rightarrow> Callback \<times> Callback" where
  "wrap p onSuccess onFailure = (WrapSuccess p onSuccess, WrapFailure p onFailure)"

definition Then :: "addr \<Rightarrow> Callback option \<Rightarrow> Callback option \<Rightarrow> world \<Rightarrow> addr \<times> world" where
  "Then p onSuccess onFailure w =
     (let (child, w1) = new_Promise w;
          (success', failure') = wrap child onSuccess onFailure;
          w2 = upd p (\<lambda>r. r\<lparr>success := success r @ [Some success']\<rparr>) w1;
          w3 = upd p (\<lambda>r. r\<lparr>failure := failure r @ [Some failure']\<rparr>) w2
      in (child, flush p w3))"

subsection \<open>sendSoon\<close>

fun sendSoon :: "val \<Rightarrow> Callback option list \<Rightarrow> world \<Rightarrow> unit result \<times> world" where
  "sendSoon v [] w = (Ok (), w)"
| "sendSoon v (cb # callbacks) w =
     (if cb \<noteq> None
      then (case call (the cb) v w of
              (Panic x, w1) \<Rightarrow> (Panic x, w1)
            | (Ok _, w1) \<Rightarrow> sendSoon v callbacks w1)
      else sendSoon v callbacks w)"

section \<open>Promisify\<close>

definition errorType :: gotype where
  "errorType = TError"

definition reflectAll :: "val list \<Rightarrow> Value list" where
  "reflectAll args = map ValueOf args"

fun unReflectAll :: "Value list \<Rightarrow> val list result" where
  "unReflectAll [] = Ok []"
| "unReflectAll (r # results) =
     (case Interface r of
        Panic x \<Rightarrow> Panic x
      | Ok out \<Rightarrow>
          (case unReflectAll results of
             Panic x \<Rightarrow> Panic x
           | Ok outs \<Rightarrow> Ok (out # outs)))"

definition desliceOne :: "val list \<Rightarrow> val" where
  "desliceOne vals =
     (if length vals = 0 then VNil
      else if length vals = 1 then vals ! 0
      else VSlice vals)"

text \<open>
  The type assertion \<open>.(error)\<close>: it panics on a value that is not an error. (A result
  declared of type \<open>error\<close> never is one.)
\<close>

definition assertionPanic :: val where
  "assertionPanic = VErr (errorString ''interface conversion: interface {} is not error'')"

fun assert_error :: "val \<Rightarrow> goerror result" where
  "assert_error (VErr e) = Ok e"
| "assert_error v = Panic assertionPanic"

text \<open>
  The return statement of \<open>splitResults\<close>,
  \<^verbatim>\<open>return desliceOne(unReflectAll(results)), err\<close>.
\<close>

definition splitResults_return :: "Value list \<Rightarrow> goerror option \<Rightarrow> (val \<times> goerror option) result" where
  "splitResults_return results err =
     (case unReflectAll results of
        Panic x \<Rightarrow> Panic x
      | Ok outs \<Rightarrow> Ok (desliceOne outs, err))"

definition splitResults :: "Value list \<Rightarrow> bool \<Rightarrow> (val \<times> goerror option) result" where
  "splitResults results lastError =
     (let N = length results in
      if lastError \<and> N > 0
      then
        let errval = results ! (N - 1);
            results1 = take (N - 1) results
        in if IsValid errval
           then (case IsNil errval of
                   Panic x \<Rightarrow> Panic x
                 | Ok isnil \<Rightarrow>
                     if \<not> isnil
                     then (case Interface errval of
                             Panic x \<Rightarrow> Panic x
                           | Ok i \<Rightarrow>
                               (case assert_error i of
                                  Panic x \<Rightarrow> Panic x
                                | Ok e \<Rightarrow> splitResults_return results1 (Some e)))
                     else splitResults_return results1 None)
           else splitResults_return results1 None
      else splitResults_return results None)"

definition hasLastError :: "functype \<Rightarrow> bool" where
  "hasLastError t =
     (let N = NumOut t in
      if N = 0 then False
      else Out t (N - 1) = errorType)"

text \<open>
  The body of the goroutine that the function returned by \<open>Promisify\<close> starts. There is
  no \<open>recover\<close> in it: a panic of \<open>Call\<close>, of \<open>splitResults\<close>, of \<open>Resolve\<close> or of
  \<open>Reject\<close> leaves the goroutine.
\<close>

definition Promisify_go :: "Func \<Rightarrow> val list \<Rightarrow> addr \<Rightarrow> world \<Rightarrow> unit result \<times> world" where
  "Promisify_go f args p w =
     (case Call f (reflectAll args) of
        Panic x \<Rightarrow> (Panic x, w)
      | Ok results \<Rightarrow>
          (case splitResults results (hasLastError (Type f)) of
             Panic x \<Rightarrow> (Panic x, w)
           | Ok (v, err) \<Rightarrow>
               (case err of
                  None \<Rightarrow>
                    (case Resolve p v w of
                       (Panic x, w1) \<Rightarrow> (Panic x, w1)
                     | (Ok _, w1) \<Rightarrow> (Ok (), w1))
                | Some e \<Rightarrow>
                    (case Reject p (VStr (Error e)) w of
                       (Panic x, w1) \<Rightarrow> (Panic x, w1)
                     | (Ok _, w1) \<Rightarrow> (Ok (), w1)))))"

text \<open>
  \<open>Promisify f args\<close> is a call, with the arguments \<open>args\<close>, of the function that
  \<open>Promisify(fn)\<close> returns: it declares the promise, starts the goroutine and returns
  the promise (the JS wrapper around it is left out).
\<close>

definition Promisify :: "Func \<Rightarrow> val list \<Rightarrow> world \<Rightarrow> addr \<times> world" where
  "Promisify f args w =
     (let (p, w1) = new_Promise w
      in (p, go (GoPromisify f args p) w1))"

section \<open>Running goroutines\<close>

fun run :: "goroutine \<Rightarrow> world \<Rightarrow> unit result \<times> world" where
  "run (GoSendSoon v callbacks) w = sendSoon v callbacks w"
| "run (GoPromisify f args p) w = Promisify_go f args p w"

text \<open>
  \<open>exec i w\<close> runs the \<open>i\<close>-th waiting goroutine to its end. A goroutine body of this
  package has no blocking operation, and under GopherJS, for which the package is written,
  goroutines are switched only at blocking operations, so a body runs without
  interruption. A panic that leaves the goroutine ends the program.
\<close>

definition exec :: "nat \<Rightarrow> world \<Rightarrow> world" where
  "exec i w =
     (let g = goroutines w ! i;
          w1 = w\<lparr>goroutines := take i (goroutines w) @ drop (Suc i) (goroutines w)\<rparr>
      in case run g w1 of
           (Panic x, w2) \<Rightarrow> w2\<lparr>crashed := Some x\<rparr>
         | (Ok _, w2) \<Rightarrow> w2)"

text \<open>The scheduler picks any waiting goroutine, as long as the program has not crashed.\<close>

inductive sched :: "world \<Rightarrow> world \<Rightarrow> bool" where
  pick: "crashed w = None \<Longrightarrow> i < length (goroutines w) \<Longrightarrow> sched w (exec i w)"

text \<open>
  What a program using the package does, one step at a time: the declaration of a
  promise (\<open>var p Promise\<close>), a call of \<open>Then\<close>,
  \<open>Resolve\<close> or \<open>Reject\<close> on a promise (a panic of the call is recovered by the caller, as
  \<open>assert.Panics\<close> does in the tests), a call of a promisified function, or the run of
  a waiting goroutine.
\<close>

datatype action =
    DoNew
  | DoThen addr "Callback option" "Callback option"
  | DoResolve addr val
  | DoReject addr val
  | DoPromisify Func "val list"
  | DoExec nat

fun act :: "action \<Rightarrow> world \<Rightarrow> world" where
  "act DoNew w = snd (new_Promise w)"
| "act (DoThen p onSuccess onFailure) w = snd (Then p onSuccess onFailure w)"
| "act (DoResolve p v) w = snd (Resolve p v w)"
| "act (DoReject p v) w = snd (Reject p v w)"
| "act (DoPromisify f args) w = snd (Promisify f args w)"
| "act (DoExec i) w = (if i < length (goroutines w) then exec i w else w)"

definition acts :: "action list \<Rightarrow> world \<Rightarrow> world" where
  "acts xs w = fold act xs w"

section \<open>Example programs\<close>

subsection \<open>A root promise\<close>

text \<open>
  \<open>var a Promise\<close> in an empty program (the promise is at address 0), then
  \<open>a.Resolve(1)\<close>, or \<open>a.Reject(1)\<close>.
\<close>

definition root_pending :: world where
  "root_pending = snd (new_Promise world0)"

definition root_fulfilled :: world where
  "root_fulfilled = snd (Resolve 0 (VInt 1) root_pending)"

definition root_rejected :: world where
  "root_rejected = snd (Reject 0 (VInt 1) root_pending)"

subsection \<open>The chain of the tests\<close>

text \<open>
  The callbacks of the tests: \<open>incrementor.process\<close> asserts that its argument is an
  \<open>int\<close> and returns it plus one (the send on its channel is the entry of the trace);
  \<open>panicIfCalled\<close> panics.
\<close>

definition process :: "val \<Rightarrow> val result" where
  "process val =
     (case val of
        VInt v \<Rightarrow> Ok (VInt (v + 1))
      | _ \<Rightarrow> Panic (VErr (errorString ''interface conversion: interface {} is not int'')))"

definition panicIfCalled :: "val \<Rightarrow> val result" where
  "panicIfCalled v = Panic (VStr ''oops'')"

text \<open>
  \<open>a2 := a.Then(f1, nil); a3 := a2.Then(f2, nil); a3.Then(f3, nil); a.Resolve(1)\<close>,
  where \<open>f\<^sub>i\<close> is \<open>process\<close> under the label \<open>i\<close>; then the only waiting goroutine is
  run, four times.
\<close>

definition chain1 :: world where
  "chain1 = snd (Then 0 (Some (Fn 1 process)) None root_pending)"

definition chain2 :: world where
  "chain2 = snd (Then 1 (Some (Fn 2 process)) None chain1)"

definition chain3 :: world where
  "chain3 = snd (Then 2 (Some (Fn 3 process)) None chain2)"

definition chain_resolved :: world where
  "chain_resolved = snd (Resolve 0 (VInt 1) chain3)"

definition chain_run1 :: world where
  "chain_run1 = exec 0 chain_resolved"

definition chain_run2 :: world where
  "chain_run2 = exec 0 chain_run1"

definition chain_run3 :: world where
  "chain_run3 = exec 0 chain_run2"

definition chain_run4 :: world where
  "chain_run4 = exec 0 chain_run3"

text \<open>
  The same chain added to the root after \<open>a.Resolve(1)\<close>:
  \<open>a.Resolve(1); a2 := a.Then(f1, nil); a3 := a2.Then(f2, nil); a3.Then(f3, nil)\<close>.
\<close>

definition late1 :: world where
  "late1 = snd (Then 0 (Some (Fn 1 process)) None root_fulfilled)"

definition late2 :: world where
  "late2 = snd (Then 1 (Some (Fn 2 process)) None late1)"

definition late_chain :: world where
  "late_chain = snd (Then 2 (Some (Fn 3 process)) None late2)"

text \<open>
  How far the late chain has come: \<open>k\<close> handlers have been called; the goroutine that
  \<open>a.Resolve(1)\<close> started for the then empty queue of the root is still waiting
  (\<open>e\<close>) or has run; the goroutine \<open>dispatch k\<close> that will call the next handler (or
  the empty queue of the last child) is waiting; the children further down are pending,
  each with its link.
\<close>

definition handler_calls :: "(nat \<times> val) list" where
  "handler_calls = [(1, VInt 1), (2, VInt 2), (3, VInt 3)]"

definition link :: "nat \<Rightarrow> Promise" where
  "link k =
     (if k < 3
      then \<lparr>state = pending, pvalue = VNil,
            success = [Some (WrapSuccess (Suc k) (Some (Fn (Suc k) process)))],
            failure = [Some (WrapFailure (Suc k) None)]\<rparr>
      else zero_Promise)"

definition dispatch :: "nat \<Rightarrow> goroutine" where
  "dispatch k =
     GoSendSoon (VInt (int k + 1))
       (if k < 3 then [Some (WrapSuccess (Suc k) (Some (Fn (Suc k) process)))] else [])"

definition late_stage :: "nat \<Rightarrow> bool \<Rightarrow> world \<Rightarrow> bool" where
  "late_stage k e w \<longleftrightarrow>
     crashed w = None \<and> trace w = take k handler_calls \<and>
     goroutines w = (if e then [GoSendSoon (VInt 1) []] else []) @ (if k \<le> 3 then [dispatch k] else []) \<and>
     (k < 1 \<longrightarrow> heap w 1 = link 1) \<and>
     (k < 2 \<longrightarrow> heap w 2 = link 2) \<and>
     (k < 3 \<longrightarrow> heap w 3 = link 3)"

subsection \<open>Callbacks that panic\<close>

text \<open>
  \<open>a.Then(nil, panicIfCalled); a.Reject(1)\<close> and the run of the goroutine, and
  \<open>a.Then(panicIfCalled, nil); a.Resolve(1)\<close> and the run of the goroutine.
\<close>

definition link_failure_panics :: world where
  "link_failure_panics = snd (Then 0 None (Some (Fn 1 panicIfCalled)) root_pending)"

definition rejected_failure_panics :: world where
  "rejected_failure_panics = snd (Reject 0 (VInt 1) link_failure_panics)"

definition failure_panics :: world where
  "failure_panics = exec 0 rejected_failure_panics"

definition link_success_panics :: world where
  "link_success_panics = snd (Then 0 (Some (Fn 1 panicIfCalled)) None root_pending)"

definition fulfilled_success_panics :: world where
  "fulfilled_success_panics = snd (Resolve 0 (VInt 1) link_success_panics)"

definition success_panics :: world where
  "success_panics = exec 0 fulfilled_success_panics"

subsection \<open>Promisified functions\<close>

text \<open>
  \<open>func() { panic("oops") }\<close>,
  \<open>func() (int, error) { return 7, errors.New("boom") }\<close>,
  \<open>func() (int, string) { return 7, "seven" }\<close>,
  \<open>func() (int, error) { return 7, nil }\<close> and
  \<open>func() interface{} { return errors.New("boom") }\<close>; and the first two promisified,
  called, and their goroutine run.
\<close>

definition always_panics :: Func where
  "always_panics =
     \<lparr>Type = \<lparr>in_types = [], out_types = []\<rparr>,
      Call = (\<lambda>args. Panic (VStr ''oops''))\<rparr>"

definition always_fails :: Func where
  "always_fails =
     \<lparr>Type = \<lparr>in_types = [], out_types = [TInt, TError]\<rparr>,
      Call = (\<lambda>args. Ok [ValueOf' (VInt 7), ValueOf' (VErr (errorString ''boom''))])\<rparr>"

definition two_values :: Func where
  "two_values =
     \<lparr>Type = \<lparr>in_types = [], out_types = [TInt, TString]\<rparr>,
      Call = (\<lambda>args. Ok [ValueOf' (VInt 7), ValueOf' (VStr ''seven'')])\<rparr>"

definition value_and_nil_error :: Func where
  "value_and_nil_error =
     \<lparr>Type = \<lparr>in_types = [], out_types = [TInt, TError]\<rparr>,
      Call = (\<lambda>args. Ok [ValueOf' (VInt 7), ValueOf' VNil])\<rparr>"


definition promisify_panics :: world where
  "promisify_panics = exec 0 (snd (Promisify always_panics [] world0))"

definition promisify_fails :: world where
  "promisify_fails = exec 0 (snd (Promisify always_fails [] world0))"

section \<open>How the operations act on the world\<close>

lemma heap_upd [simp]: "heap (upd p f w) = (heap w)(p := f (heap w p))"
  and fresh_upd [simp]: "fresh (upd p f w) = fresh w"
  and goroutines_upd [simp]: "goroutines (upd p f w) = goroutines w"
  and trace_upd [simp]: "trace (upd p f w) = trace w"
  and crashed_upd [simp]: "crashed (upd p f w) = crashed w"
  by (simp_all add: upd_def)

lemma heap_go [simp]: "heap (go g w) = heap w"
  and fresh_go [simp]: "fresh (go g w) = fresh w"
  and goroutines_go [simp]: "goroutines (go g w) = goroutines w @ [g]"
  and trace_go [simp]: "trace (go g w) = trace w"
  and crashed_go [simp]: "crashed (go g w) = crashed w"
  by (simp_all add: go_def)

lemma commit_pending:
  "state (heap w p) = pending \<Longrightarrow>
   commit p s v cbs w = (Ok (), upd p (\<lambda>r. r\<lparr>pvalue := v, state := s\<rparr>) w)"
  by (simp add: commit_def)

lemma commit_settled:
  "state (heap w p) \<noteq> pending \<Longrightarrow>
   commit p s v cbs w = (Panic (commit_panic (state (heap w p))), w)"
  by (simp add: commit_def)

lemma flush_pending: "state (heap w p) = pending \<Longrightarrow> flush p w = w"
  by (simp add: flush_def)

lemma flush_fulfilled:
  "state (heap w p) = fulfilled \<Longrightarrow>
   flush p w = upd p (\<lambda>r. r\<lparr>success := [], failure := []\<rparr>)
                 (go (GoSendSoon (pvalue (heap w p)) (success (heap w p))) w)"
  by (simp add: flush_def)

lemma flush_rejected:
  "state (heap w p) = rejected \<Longrightarrow>
   flush p w = upd p (\<lambda>r. r\<lparr>success := [], failure := []\<rparr>)
                 (go (GoSendSoon (pvalue (heap w p)) (failure (heap w p))) w)"
  by (simp add: flush_def)

lemma Resolve_pending:
  "state (heap w p) = pending \<Longrightarrow>
   Resolve p v w =
     (Ok v, upd p (\<lambda>r. r\<lparr>success := [], failure := []\<rparr>)
              (go (GoSendSoon v (success (heap w p)))
                 (upd p (\<lambda>r. r\<lparr>pvalue := v, state := fulfilled\<rparr>) w)))"
  by (simp add: Resolve_def commit_pending flush_fulfilled)

lemma Reject_pending:
  "state (heap w p) = pending \<Longrightarrow>
   Reject p v w =
     (Ok v, upd p (\<lambda>r. r\<lparr>success := [], failure := []\<rparr>)
              (go (GoSendSoon v (failure (heap w p)))
                 (upd p (\<lambda>r. r\<lparr>pvalue := v, state := rejected\<rparr>) w)))"
  by (simp add: Reject_def commit_pending flush_rejected)

lemma Resolve_settled:
  "state (heap w p) \<noteq> pending \<Longrightarrow> Resolve p v w = (Panic (commit_panic (state (heap w p))), w)"
  by (simp add: Resolve_def commit_settled)

lemma Reject_settled:
  "state (heap w p) \<noteq> pending \<Longrightarrow> Reject p v w = (Panic (commit_panic (state (heap w p))), w)"
  by (simp add: Reject_def commit_settled)

lemma heap_flush:
  "heap (flush p w) q =
     (if q = p \<and> state (heap w p) \<noteq> pending
      then (heap w p)\<lparr>success := [], failure := []\<rparr> else heap w q)"
  by (cases "state (heap w p)") (simp_all add: flush_def)

lemma fresh_flush [simp]: "fresh (flush p w) = fresh w"
  and trace_flush [simp]: "trace (flush p w) = trace w"
  and crashed_flush [simp]: "crashed (flush p w) = crashed w"
  by (simp_all add: flush_def Let_def)

lemma heap_new_Promise [simp]:
  "heap (snd (new_Promise w)) = (heap w)(fresh w := zero_Promise)"
  and fresh_new_Promise [simp]: "fresh (snd (new_Promise w)) = Suc (fresh w)"
  and fst_new_Promise [simp]: "fst (new_Promise w) = fresh w"
  and goroutines_new_Promise [simp]: "goroutines (snd (new_Promise w)) = goroutines w"
  and trace_new_Promise [simp]: "trace (snd (new_Promise w)) = trace w"
  and crashed_new_Promise [simp]: "crashed (snd (new_Promise w)) = crashed w"
  by (simp_all add: new_Promise_def)

lemma Then_eq:
  "Then p onSuccess onFailure w =
     (fresh w,
      flush p
        (upd p (\<lambda>r. r\<lparr>failure := failure r @ [Some (WrapFailure (fresh w) onFailure)]\<rparr>)
           (upd p (\<lambda>r. r\<lparr>success := success r @ [Some (WrapSuccess (fresh w) onSuccess)]\<rparr>)
              (snd (new_Promise w)))))"
  by (simp add: Then_def wrap_def new_Promise_def)

lemma Promisify_eq:
  "Promisify f args w = (fresh w, go (GoPromisify f args (fresh w)) (snd (new_Promise w)))"
  by (simp add: Promisify_def new_Promise_def)

lemma goroutines_flush:
  "goroutines (flush p w) =
     (if state (heap w p) = pending then goroutines w
      else goroutines w @
           [GoSendSoon (pvalue (heap w p))
              (if state (heap w p) = fulfilled then success (heap w p) else failure (heap w p))])"
  by (cases "state (heap w p)") (simp_all add: flush_def)

lemma Resolve_pending_world:
  "state (heap w p) = pending \<Longrightarrow>
   Resolve p v w =
     (Ok v, w\<lparr>heap := (heap w)(p := (heap w p)\<lparr>state := fulfilled, pvalue := v, success := [], failure := []\<rparr>),
              goroutines := goroutines w @ [GoSendSoon v (success (heap w p))]\<rparr>)"
  by (simp add: Resolve_pending upd_def go_def)
    (rule world.equality; simp; rule arg_cong [where f = "fun_upd (heap w) p"]; rule Promise.equality; simp)

lemma Reject_pending_world:
  "state (heap w p) = pending \<Longrightarrow>
   Reject p v w =
     (Ok v, w\<lparr>heap := (heap w)(p := (heap w p)\<lparr>state := rejected, pvalue := v, success := [], failure := []\<rparr>),
              goroutines := goroutines w @ [GoSendSoon v (failure (heap w p))]\<rparr>)"
  by (simp add: Reject_pending upd_def go_def)
    (rule world.equality; simp; rule arg_cong [where f = "fun_upd (heap w) p"]; rule Promise.equality; simp)

lemma Then_pending_world:
  "p \<noteq> fresh w \<Longrightarrow> state (heap w p) = pending \<Longrightarrow>
   Then p a b w =
     (fresh w,
      w\<lparr>heap := (heap w)(fresh w := zero_Promise,
                  p := (heap w p)\<lparr>success := success (heap w p) @ [Some (WrapSuccess (fresh w) a)],
                                  failure := failure (heap w p) @ [Some (WrapFailure (fresh w) b)]\<rparr>),
        fresh := Suc (fresh w)\<rparr>)"
  by (simp add: Then_eq flush_pending new_Promise_def upd_def)

lemma Then_rejected:
  assumes "p \<noteq> fresh w" "state (heap w p) = rejected" "failure (heap w p) = []"
  shows "snd (Then p a b w) =
     w\<lparr>heap := (heap w)(fresh w := zero_Promise, p := (heap w p)\<lparr>success := [], failure := []\<rparr>),
       fresh := Suc (fresh w),
       goroutines := goroutines w @ [GoSendSoon (pvalue (heap w p)) [Some (WrapFailure (fresh w) b)]]\<rparr>"
  using assms
  by (simp add: Then_eq flush_rejected new_Promise_def upd_def go_def)

lemma Then_fulfilled:
  assumes "p \<noteq> fresh w" "state (heap w p) = fulfilled" "success (heap w p) = []"
  shows "snd (Then p a b w) =
     w\<lparr>heap := (heap w)(fresh w := zero_Promise, p := (heap w p)\<lparr>success := [], failure := []\<rparr>),
       fresh := Suc (fresh w),
       goroutines := goroutines w @ [GoSendSoon (pvalue (heap w p)) [Some (WrapSuccess (fresh w) a)]]\<rparr>"
  using assms
  by (simp add: Then_eq flush_fulfilled new_Promise_def upd_def go_def)

lemma Promisify_world:
  "Promisify f args w =
     (fresh w, w\<lparr>heap := (heap w)(fresh w := zero_Promise), fresh := Suc (fresh w),
                 goroutines := goroutines w @ [GoPromisify f args (fresh w)]\<rparr>)"
  by (simp add: Promisify_def new_Promise_def go_def)

lemma fst_Promisify: "fst (Promisify f args w) = fresh w"
  by (simp add: Promisify_world)

lemma exec_Promisify:
  "exec (length (goroutines w)) (snd (Promisify f args w)) =
     (case Promisify_go f args (fresh w)
             (w\<lparr>heap := (heap w)(fresh w := zero_Promise), fresh := Suc (fresh w)\<rparr>) of
        (Panic x, w2) \<Rightarrow> w2\<lparr>crashed := Some x\<rparr>
      | (Ok _, w2) \<Rightarrow> w2)"
  by (simp add: Promisify_world exec_def)

lemma call_WrapFailure_None: "call (WrapFailure c None) v w = Reject c v w"
  by (cases "Reject c v w") (simp add: safe_def split: result.splits)

lemma call_WrapSuccess_None:
  "state (heap w c) = pending \<Longrightarrow> call (WrapSuccess c None) v w = Resolve c v w"
  by (simp add: safe_def Resolve_pending)

text \<open>
  The success closure recovers the panic of its callback: a callback that panics with a
  value other than nil leaves the pending child rejected with that value, and no panic
  leaves the closure.
\<close>

lemma call_WrapSuccess_panic:
  assumes "call cb v w = (Panic x, w1)" "x \<noteq> VNil" "state (heap w1 c) = pending"
  shows "call (WrapSuccess c (Some cb)) v w = (Ok VNil, snd (Reject c x w1))"
    and "state (heap (snd (call (WrapSuccess c (Some cb)) v w)) c) = rejected"
    and "pvalue (heap (snd (call (WrapSuccess c (Some cb)) v w)) c) = x"
  using assms by (simp_all add: safe_def recovered_def Reject_pending)

text \<open>The failure closure has no \<open>recover\<close>: the panic of its callback leaves it.\<close>

lemma call_WrapFailure_panic:
  "call cb v w = (Panic x, w1) \<Longrightarrow> call (WrapFailure c (Some cb)) v w = (Panic x, w1)"
  by (simp add: safe_def)

subsection \<open>The root promise of the examples\<close>

lemma root_pending_eq:
  "heap root_pending 0 = zero_Promise" "fresh root_pending = 1" "goroutines root_pending = []"
  "trace root_pending = []" "crashed root_pending = None"
  by (simp_all add: root_pending_def world0_def)

lemma root_pending_0: "state (heap root_pending 0) = pending"
  by (simp add: root_pending_def world0_def zero_Promise_def)

lemma root_fulfilled_0:
  "0 < fresh root_fulfilled \<and> state (heap root_fulfilled 0) \<noteq> pending"
  by (simp add: root_fulfilled_def Resolve_pending root_pending_0)
    (simp add: root_pending_def world0_def)

lemma root_fulfilled_eq:
  "heap root_fulfilled 0 = \<lparr>state = fulfilled, pvalue = VInt 1, success = [], failure = []\<rparr>"
  "fresh root_fulfilled = 1" "goroutines root_fulfilled = [GoSendSoon (VInt 1) []]"
  "trace root_fulfilled = []" "crashed root_fulfilled = None"
  using root_pending_eq
  by (simp_all add: root_fulfilled_def Resolve_pending zero_Promise_def)

lemma root_rejected_eq:
  "heap root_rejected 0 = \<lparr>state = rejected, pvalue = VInt 1, success = [], failure = []\<rparr>"
  "fresh root_rejected = 1" "goroutines root_rejected = [GoSendSoon (VInt 1) []]"
  "trace root_rejected = []" "crashed root_rejected = None"
  using root_pending_eq
  by (simp_all add: root_rejected_def Reject_pending zero_Promise_def)

section \<open>Properties kept by every step of a program\<close>

lemma recovered_keeps:
  assumes "\<And>q v w. P w \<Longrightarrow> P (snd (Reject q v w))"
  shows "P w \<Longrightarrow> P (snd (recovered p x w))"
proof -
  assume pw: "P w"
  from assms [OF pw, of p x] pw show ?thesis
    by (cases "Reject p x w") (auto simp: recovered_def split: result.splits)
qed

lemma call_keeps:
  assumes res: "\<And>q v w. P w \<Longrightarrow> P (snd (Resolve q v w))"
    and rej: "\<And>q v w. P w \<Longrightarrow> P (snd (Reject q v w))"
    and tr: "\<And>w t. P w \<Longrightarrow> P (w\<lparr>trace := t\<rparr>)"
  shows "P w \<Longrightarrow> P (snd (call c v w))"
proof (induction c v w rule: call.induct)
  case (1 n f v w)
  then show ?case by (simp add: tr)
next
  case (2 v w)
  then show ?case by simp
next
  case (3 p onSuccess v w)
  obtain r1 w1 where c1: "call (safe onSuccess) v w = (r1, w1)" by (cases "call (safe onSuccess) v w")
  with 3 have p1: "P w1" by simp
  show ?case
  proof (cases r1)
    case (Panic x)
    with c1 recovered_keeps [of P w1 p x, OF rej p1] show ?thesis by simp
  next
    case (Ok r)
    obtain r2 w2 where c2: "Resolve p r w1 = (r2, w2)" by (cases "Resolve p r w1")
    with res [OF p1, of p r] have p2: "P w2" by simp
    show ?thesis
    proof (cases r2)
      case (Panic x)
      with c1 c2 Ok recovered_keeps [of P w2 p x, OF rej p2] show ?thesis by simp
    next
      case (Ok r')
      with c1 c2 \<open>r1 = Ok r\<close> p2 show ?thesis by simp
    qed
  qed
next
  case (4 p onFailure v w)
  obtain r1 w1 where c1: "call (safe onFailure) v w = (r1, w1)" by (cases "call (safe onFailure) v w")
  with 4 have p1: "P w1" by simp
  show ?case
  proof (cases r1)
    case (Panic x)
    with c1 p1 show ?thesis by simp
  next
    case (Ok r)
    with c1 rej [OF p1, of p r] show ?thesis by simp
  qed
qed

lemma sendSoon_keeps:
  assumes res: "\<And>q v w. P w \<Longrightarrow> P (snd (Resolve q v w))"
    and rej: "\<And>q v w. P w \<Longrightarrow> P (snd (Reject q v w))"
    and tr: "\<And>w t. P w \<Longrightarrow> P (w\<lparr>trace := t\<rparr>)"
  shows "P w \<Longrightarrow> P (snd (sendSoon v callbacks w))"
proof (induction callbacks arbitrary: w)
  case Nil
  then show ?case by simp
next
  case (Cons cb callbacks)
  show ?case
  proof (cases cb)
    case None
    with Cons show ?thesis by simp
  next
    case (Some c)
    obtain r1 w1 where c1: "call c v w = (r1, w1)" by (cases "call c v w")
    with call_keeps [of P w c v, OF res rej tr Cons.prems] have p1: "P w1" by simp
    from Cons.IH [OF p1] c1 p1 Some show ?thesis by (cases r1) simp_all
  qed
qed

lemma Promisify_go_keeps:
  assumes res: "\<And>q v w. P w \<Longrightarrow> P (snd (Resolve q v w))"
    and rej: "\<And>q v w. P w \<Longrightarrow> P (snd (Reject q v w))"
  shows "P w \<Longrightarrow> P (snd (Promisify_go f args p w))"
proof -
  assume pw: "P w"
  have a: "P w'" if "Resolve p v w = (r, w')" for v r w'
    using res [OF pw, of p v] that by simp
  have b: "P w'" if "Reject p v w = (r, w')" for v r w'
    using rej [OF pw, of p v] that by simp
  show ?thesis
    using pw by (auto simp: Promisify_go_def split: result.splits prod.splits option.splits
        intro: a b)
qed

lemma exec_keeps:
  assumes res: "\<And>q v w. P w \<Longrightarrow> P (snd (Resolve q v w))"
    and rej: "\<And>q v w. P w \<Longrightarrow> P (snd (Reject q v w))"
    and tr: "\<And>w t. P w \<Longrightarrow> P (w\<lparr>trace := t\<rparr>)"
    and gs: "\<And>w g. P w \<Longrightarrow> P (w\<lparr>goroutines := g\<rparr>)"
    and cr: "\<And>w c. P w \<Longrightarrow> P (w\<lparr>crashed := c\<rparr>)"
  shows "P w \<Longrightarrow> P (exec i w)"
proof -
  assume pw: "P w"
  define w1 where "w1 = w\<lparr>goroutines := take i (goroutines w) @ drop (Suc i) (goroutines w)\<rparr>"
  have p1: "P w1" unfolding w1_def by (rule gs [OF pw])
  have p2: "P (snd (run g w1))" for g
  proof (cases g)
    case (GoSendSoon v callbacks)
    with sendSoon_keeps [of P w1 v callbacks, OF res rej tr p1] show ?thesis by simp
  next
    case (GoPromisify f args p)
    with Promisify_go_keeps [of P w1 f args p, OF res rej p1] show ?thesis by simp
  qed
  obtain r2 w2 where r: "run (goroutines w ! i) w1 = (r2, w2)" by (cases "run (goroutines w ! i) w1")
  with p2 [of "goroutines w ! i"] have "P w2" by simp
  with r cr [of w2] show ?thesis
    by (cases r2) (simp_all add: exec_def w1_def [symmetric])
qed

lemma acts_keeps:
  assumes res: "\<And>q v w. P w \<Longrightarrow> P (snd (Resolve q v w))"
    and rej: "\<And>q v w. P w \<Longrightarrow> P (snd (Reject q v w))"
    and thn: "\<And>q s f w. P w \<Longrightarrow> P (snd (Then q s f w))"
    and new: "\<And>w. P w \<Longrightarrow> P (snd (new_Promise w))"
    and tr: "\<And>w t. P w \<Longrightarrow> P (w\<lparr>trace := t\<rparr>)"
    and gs: "\<And>w g. P w \<Longrightarrow> P (w\<lparr>goroutines := g\<rparr>)"
    and cr: "\<And>w c. P w \<Longrightarrow> P (w\<lparr>crashed := c\<rparr>)"
  shows "P w \<Longrightarrow> P (acts xs w)"
proof (induction xs arbitrary: w)
  case Nil
  then show ?case by (simp add: acts_def)
next
  case (Cons a xs)
  have "P (act a w)"
  proof (cases a)
    case DoNew
    with new [OF Cons.prems] show ?thesis by simp
  next
    case (DoThen p s f)
    with thn [OF Cons.prems] show ?thesis by simp
  next
    case (DoResolve p v)
    with res [OF Cons.prems] show ?thesis by simp
  next
    case (DoReject p v)
    with rej [OF Cons.prems] show ?thesis by simp
  next
    case (DoPromisify f args)
    with gs [OF new [OF Cons.prems]] show ?thesis by (simp add: Promisify_eq go_def)
  next
    case (DoExec i)
    with exec_keeps [of P w i, OF res rej tr gs cr Cons.prems] Cons.prems show ?thesis by simp
  qed
  from Cons.IH [OF this] show ?case by (simp add: acts_def)
qed

section \<open>Settling at most once\<close>

subsection \<open>A settled promise stays as it is\<close>

lemma settled_Resolve:
  "p < fresh w \<and> state (heap w p) = s \<and> pvalue (heap w p) = v \<and> s \<noteq> pending \<Longrightarrow>
   p < fresh (snd (Resolve q u w)) \<and> state (heap (snd (Resolve q u w)) p) = s \<and>
   pvalue (heap (snd (Resolve q u w)) p) = v \<and> s \<noteq> pending"
  by (cases "state (heap w q) = pending") (auto simp: Resolve_pending Resolve_settled)

lemma settled_Reject:
  "p < fresh w \<and> state (heap w p) = s \<and> pvalue (heap w p) = v \<and> s \<noteq> pending \<Longrightarrow>
   p < fresh (snd (Reject q u w)) \<and> state (heap (snd (Reject q u w)) p) = s \<and>
   pvalue (heap (snd (Reject q u w)) p) = v \<and> s \<noteq> pending"
  by (cases "state (heap w q) = pending") (auto simp: Reject_pending Reject_settled)

lemma settled_Then:
  "p < fresh w \<and> state (heap w p) = s \<and> pvalue (heap w p) = v \<and> s \<noteq> pending \<Longrightarrow>
   p < fresh (snd (Then q a b w)) \<and> state (heap (snd (Then q a b w)) p) = s \<and>
   pvalue (heap (snd (Then q a b w)) p) = v \<and> s \<noteq> pending"
  by (auto simp: Then_eq heap_flush)

lemma settled_acts:
  assumes "p < fresh w \<and> state (heap w p) = s \<and> pvalue (heap w p) = v \<and> s \<noteq> pending"
  shows "p < fresh (acts xs w) \<and> state (heap (acts xs w) p) = s \<and>
         pvalue (heap (acts xs w) p) = v \<and> s \<noteq> pending"
  by (rule acts_keeps [where P = "\<lambda>w. p < fresh w \<and> state (heap w p) = s \<and> pvalue (heap w p) = v \<and> s \<noteq> pending",
        OF settled_Resolve settled_Reject settled_Then _ _ _ _ assms]) auto

subsection \<open>The claim\<close>

text \<open>
  Claim C4. On a pending promise \<open>Resolve\<close> and \<open>Reject\<close> succeed and leave it
  fulfilled, or rejected, with the given value. Once a promise of the program (one below
  \<open>fresh\<close>) is settled it keeps its state and its value through every later step of the
  program, and every later call of \<open>Resolve\<close> or \<open>Reject\<close> on it panics and leaves
  the world as it was: so at most one call ever succeeds.
\<close>

theorem settle_at_most_once:
  "(state (heap w p) = pending \<longrightarrow>
      fst (Resolve p v w) = Ok v \<and>
      state (heap (snd (Resolve p v w)) p) = fulfilled \<and>
      pvalue (heap (snd (Resolve p v w)) p) = v \<and>
      fst (Reject p v w) = Ok v \<and>
      state (heap (snd (Reject p v w)) p) = rejected \<and>
      pvalue (heap (snd (Reject p v w)) p) = v) \<and>
   (p < fresh w \<and> state (heap w p) \<noteq> pending \<longrightarrow>
      state (heap (acts xs w) p) = state (heap w p) \<and>
      pvalue (heap (acts xs w) p) = pvalue (heap w p) \<and>
      Resolve p u (acts xs w) = (Panic (commit_panic (state (heap w p))), acts xs w) \<and>
      Reject p u (acts xs w) = (Panic (commit_panic (state (heap w p))), acts xs w))"
proof (intro conjI impI)
  assume pend: "state (heap w p) = pending"
  show "fst (Resolve p v w) = Ok v" by (simp add: Resolve_pending pend)
  show "state (heap (snd (Resolve p v w)) p) = fulfilled" by (simp add: Resolve_pending pend)
  show "pvalue (heap (snd (Resolve p v w)) p) = v" by (simp add: Resolve_pending pend)
  show "fst (Reject p v w) = Ok v" by (simp add: Reject_pending pend)
  show "state (heap (snd (Reject p v w)) p) = rejected" by (simp add: Reject_pending pend)
  show "pvalue (heap (snd (Reject p v w)) p) = v" by (simp add: Reject_pending pend)
next
  assume a: "p < fresh w \<and> state (heap w p) \<noteq> pending"
  then have "p < fresh w \<and> state (heap w p) = state (heap w p) \<and>
     pvalue (heap w p) = pvalue (heap w p) \<and> state (heap w p) \<noteq> pending" by simp
  from settled_acts [OF this, of xs]
  have k: "state (heap (acts xs w) p) = state (heap w p)"
    "pvalue (heap (acts xs w) p) = pvalue (heap w p)" by simp_all
  show "state (heap (acts xs w) p) = state (heap w p)" by (rule k)
  show "pvalue (heap (acts xs w) p) = pvalue (heap w p)" by (rule k)
  from a k have n: "state (heap (acts xs w) p) \<noteq> pending" by simp
  show "Resolve p u (acts xs w) = (Panic (commit_panic (state (heap w p))), acts xs w)"
    using Resolve_settled [OF n, of u] k by simp
  show "Reject p u (acts xs w) = (Panic (commit_panic (state (heap w p))), acts xs w)"
    using Reject_settled [OF n, of u] k by simp
qed

theorem settle_at_most_once_witness:
  "state (heap root_pending 0) = pending \<and>
   fst (Resolve 0 (VInt 1) root_pending) = Ok (VInt 1) \<and>
   state (heap root_fulfilled 0) = fulfilled \<and>
   pvalue (heap root_fulfilled 0) = VInt 1 \<and>
   0 < fresh root_fulfilled \<and> state (heap root_fulfilled 0) \<noteq> pending \<and>
   Resolve 0 (VInt 2) (acts [DoExec 0, DoReject 0 (VInt 3)] root_fulfilled) =
     (Panic (commit_panic fulfilled), acts [DoExec 0, DoReject 0 (VInt 3)] root_fulfilled) \<and>
   pvalue (heap (acts [DoExec 0, DoReject 0 (VInt 3)] root_fulfilled) 0) = VInt 1"
proof -
  from settle_at_most_once [of root_pending 0 "VInt 1"] root_pending_0
  have a: "fst (Resolve 0 (VInt 1) root_pending) = Ok (VInt 1)"
    "state (heap root_fulfilled 0) = fulfilled" "pvalue (heap root_fulfilled 0) = VInt 1"
    by (simp_all add: root_fulfilled_def)
  from settle_at_most_once [of root_fulfilled 0 _ "[DoExec 0, DoReject 0 (VInt 3)]" "VInt 2"]
    root_fulfilled_0 a
  have b: "Resolve 0 (VInt 2) (acts [DoExec 0, DoReject 0 (VInt 3)] root_fulfilled) =
     (Panic (commit_panic fulfilled), acts [DoExec 0, DoReject 0 (VInt 3)] root_fulfilled)"
    "pvalue (heap (acts [DoExec 0, DoReject 0 (VInt 3)] root_fulfilled) 0) = VInt 1"
    by simp_all
  from a b root_pending_0 root_fulfilled_0 show ?thesis by simp
qed

section \<open>The queues of a settled promise are empty\<close>

lemma drained_Resolve:
  "\<forall>q. state (heap w q) \<noteq> pending \<longrightarrow> success (heap w q) = [] \<and> failure (heap w q) = [] \<Longrightarrow>
   \<forall>q. state (heap (snd (Resolve p v w)) q) \<noteq> pending \<longrightarrow>
       success (heap (snd (Resolve p v w)) q) = [] \<and> failure (heap (snd (Resolve p v w)) q) = []"
  by (cases "state (heap w p) = pending") (auto simp: Resolve_pending Resolve_settled)

lemma drained_Reject:
  "\<forall>q. state (heap w q) \<noteq> pending \<longrightarrow> success (heap w q) = [] \<and> failure (heap w q) = [] \<Longrightarrow>
   \<forall>q. state (heap (snd (Reject p v w)) q) \<noteq> pending \<longrightarrow>
       success (heap (snd (Reject p v w)) q) = [] \<and> failure (heap (snd (Reject p v w)) q) = []"
  by (cases "state (heap w p) = pending") (auto simp: Reject_pending Reject_settled)

lemma drained_Then:
  "\<forall>q. state (heap w q) \<noteq> pending \<longrightarrow> success (heap w q) = [] \<and> failure (heap w q) = [] \<Longrightarrow>
   \<forall>q. state (heap (snd (Then p a b w)) q) \<noteq> pending \<longrightarrow>
       success (heap (snd (Then p a b w)) q) = [] \<and> failure (heap (snd (Then p a b w)) q) = []"
  by (auto simp: Then_eq heap_flush zero_Promise_def)

lemma drained_acts:
  assumes "\<forall>q. state (heap w q) \<noteq> pending \<longrightarrow> success (heap w q) = [] \<and> failure (heap w q) = []"
  shows "\<forall>q. state (heap (acts xs w) q) \<noteq> pending \<longrightarrow>
       success (heap (acts xs w) q) = [] \<and> failure (heap (acts xs w) q) = []"
  by (rule acts_keeps [where P = "\<lambda>w. \<forall>q. state (heap w q) \<noteq> pending \<longrightarrow> success (heap w q) = [] \<and> failure (heap w q) = []",
        OF drained_Resolve drained_Reject drained_Then _ _ _ _ assms])
    (auto simp: zero_Promise_def)

text \<open>
  Claim C8. \<open>Then\<close> on a pending promise adds one wrapped callback to each queue;
  when \<open>Then\<close> returns on a promise that is not pending, and when \<open>Resolve\<close> or
  \<open>Reject\<close> returns, both queues of the promise are empty; and in every world that a
  program reaches from the empty world, a promise that is not pending has both queues
  empty.
\<close>

theorem queues_empty_once_settled:
  "(p \<noteq> fresh w \<and> state (heap w p) = pending \<longrightarrow>
      success (heap (snd (Then p a b w)) p) = success (heap w p) @ [Some (WrapSuccess (fresh w) a)] \<and>
      failure (heap (snd (Then p a b w)) p) = failure (heap w p) @ [Some (WrapFailure (fresh w) b)]) \<and>
   (state (heap (snd (Then p a b w)) p) \<noteq> pending \<longrightarrow>
      success (heap (snd (Then p a b w)) p) = [] \<and> failure (heap (snd (Then p a b w)) p) = []) \<and>
   (fst (Resolve p v w) = Ok v \<longrightarrow>
      state (heap (snd (Resolve p v w)) p) \<noteq> pending \<and>
      success (heap (snd (Resolve p v w)) p) = [] \<and> failure (heap (snd (Resolve p v w)) p) = []) \<and>
   (fst (Reject p v w) = Ok v \<longrightarrow>
      state (heap (snd (Reject p v w)) p) \<noteq> pending \<and>
      success (heap (snd (Reject p v w)) p) = [] \<and> failure (heap (snd (Reject p v w)) p) = []) \<and>
   (state (heap (acts xs world0) p) \<noteq> pending \<longrightarrow>
      success (heap (acts xs world0) p) = [] \<and> failure (heap (acts xs world0) p) = [])"
proof (intro conjI impI)
  assume "p \<noteq> fresh w \<and> state (heap w p) = pending"
  then show "success (heap (snd (Then p a b w)) p) = success (heap w p) @ [Some (WrapSuccess (fresh w) a)]"
    and "failure (heap (snd (Then p a b w)) p) = failure (heap w p) @ [Some (WrapFailure (fresh w) b)]"
    by (simp_all add: Then_eq heap_flush)
next
  assume "state (heap (snd (Then p a b w)) p) \<noteq> pending"
  then show "success (heap (snd (Then p a b w)) p) = []" and "failure (heap (snd (Then p a b w)) p) = []"
    by (auto simp: Then_eq heap_flush split: if_splits)
next
  assume ok: "fst (Resolve p v w) = Ok v"
  have pend: "state (heap w p) = pending"
  proof (rule ccontr)
    assume "state (heap w p) \<noteq> pending"
    from Resolve_settled [OF this, of v] ok show False by simp
  qed
  show "state (heap (snd (Resolve p v w)) p) \<noteq> pending" "success (heap (snd (Resolve p v w)) p) = []"
    "failure (heap (snd (Resolve p v w)) p) = []"
    by (simp_all add: Resolve_pending pend)
next
  assume ok: "fst (Reject p v w) = Ok v"
  have pend: "state (heap w p) = pending"
  proof (rule ccontr)
    assume "state (heap w p) \<noteq> pending"
    from Reject_settled [OF this, of v] ok show False by simp
  qed
  show "state (heap (snd (Reject p v w)) p) \<noteq> pending" "success (heap (snd (Reject p v w)) p) = []"
    "failure (heap (snd (Reject p v w)) p) = []"
    by (simp_all add: Reject_pending pend)
next
  assume n: "state (heap (acts xs world0) p) \<noteq> pending"
  have "\<forall>q. state (heap world0 q) \<noteq> pending \<longrightarrow> success (heap world0 q) = [] \<and> failure (heap world0 q) = []"
    by (simp add: world0_def zero_Promise_def)
  from drained_acts [OF this, of xs] n
  show "success (heap (acts xs world0) p) = []" and "failure (heap (acts xs world0) p) = []"
    by simp_all
qed

lemma acts_root_fulfilled:
  "acts [DoNew, DoResolve 0 (VInt 1), DoExec 0] world0 = acts [DoExec 0] root_fulfilled"
  by (simp add: acts_def root_fulfilled_def root_pending_def)

theorem queues_empty_once_settled_witness:
  "(0 \<noteq> fresh root_pending \<and> state (heap root_pending 0) = pending) \<and>
   success (heap (snd (Then 0 None None root_pending)) 0) = [Some (WrapSuccess 1 None)] \<and>
   failure (heap (snd (Then 0 None None root_pending)) 0) = [Some (WrapFailure 1 None)] \<and>
   state (heap (snd (Then 0 None None root_fulfilled)) 0) \<noteq> pending \<and>
   success (heap (snd (Then 0 None None root_fulfilled)) 0) = [] \<and>
   fst (Resolve 0 (VInt 1) root_pending) = Ok (VInt 1) \<and>
   success (heap (snd (Resolve 0 (VInt 1) root_pending)) 0) = [] \<and>
   fst (Reject 0 (VInt 1) root_pending) = Ok (VInt 1) \<and>
   failure (heap (snd (Reject 0 (VInt 1) root_pending)) 0) = [] \<and>
   state (heap (acts [DoNew, DoResolve 0 (VInt 1), DoExec 0] world0) 0) \<noteq> pending \<and>
   success (heap (acts [DoNew, DoResolve 0 (VInt 1), DoExec 0] world0) 0) = []"
proof -
  have h1: "0 \<noteq> fresh root_pending \<and> state (heap root_pending 0) = pending"
    "success (heap root_pending 0) = []" "failure (heap root_pending 0) = []"
    "fresh root_pending = Suc 0"
    by (simp_all add: root_pending_def world0_def zero_Promise_def)
  have h2: "state (heap (snd (Then 0 None None root_fulfilled)) 0) \<noteq> pending"
    using root_fulfilled_0 by (simp add: Then_eq heap_flush)
  have h3: "fst (Resolve 0 (VInt 1) root_pending) = Ok (VInt 1)"
    "fst (Reject 0 (VInt 1) root_pending) = Ok (VInt 1)"
    by (simp_all add: Resolve_pending Reject_pending root_pending_0)
  have "0 < fresh root_fulfilled \<and> state (heap root_fulfilled 0) = state (heap root_fulfilled 0) \<and>
      pvalue (heap root_fulfilled 0) = pvalue (heap root_fulfilled 0) \<and>
      state (heap root_fulfilled 0) \<noteq> pending"
    using root_fulfilled_0 by simp
  from settled_acts [OF this, of "[DoExec 0]"]
  have h5: "state (heap (acts [DoNew, DoResolve 0 (VInt 1), DoExec 0] world0) 0) \<noteq> pending"
    by (simp add: acts_root_fulfilled)
  from queues_empty_once_settled [of 0 root_pending None None "VInt 1"
      "[DoNew, DoResolve 0 (VInt 1), DoExec 0]"]
    queues_empty_once_settled [of 0 root_fulfilled None None]
    h1 h2 h3 h5
  show ?thesis by simp
qed

section \<open>A chain of three links\<close>

subsection \<open>The chain, built on a pending root that is then resolved\<close>

lemma chain1_eq:
  "heap chain1 0 = \<lparr>state = pending, pvalue = VNil,
      success = [Some (WrapSuccess 1 (Some (Fn 1 process)))], failure = [Some (WrapFailure 1 None)]\<rparr>"
  "heap chain1 1 = zero_Promise"
  "fresh chain1 = 2" "goroutines chain1 = []" "trace chain1 = []" "crashed chain1 = None"
  using root_pending_eq
  by (simp_all add: chain1_def Then_eq heap_flush goroutines_flush zero_Promise_def)

lemma chain2_eq:
  "heap chain2 0 = \<lparr>state = pending, pvalue = VNil,
      success = [Some (WrapSuccess 1 (Some (Fn 1 process)))], failure = [Some (WrapFailure 1 None)]\<rparr>"
  "heap chain2 1 = \<lparr>state = pending, pvalue = VNil,
      success = [Some (WrapSuccess 2 (Some (Fn 2 process)))], failure = [Some (WrapFailure 2 None)]\<rparr>"
  "heap chain2 2 = zero_Promise"
  "fresh chain2 = 3" "goroutines chain2 = []" "trace chain2 = []" "crashed chain2 = None"
  using chain1_eq
  by (simp_all add: chain2_def Then_eq heap_flush goroutines_flush zero_Promise_def)

lemma chain3_eq:
  "heap chain3 0 = \<lparr>state = pending, pvalue = VNil,
      success = [Some (WrapSuccess 1 (Some (Fn 1 process)))], failure = [Some (WrapFailure 1 None)]\<rparr>"
  "heap chain3 1 = \<lparr>state = pending, pvalue = VNil,
      success = [Some (WrapSuccess 2 (Some (Fn 2 process)))], failure = [Some (WrapFailure 2 None)]\<rparr>"
  "heap chain3 2 = \<lparr>state = pending, pvalue = VNil,
      success = [Some (WrapSuccess 3 (Some (Fn 3 process)))], failure = [Some (WrapFailure 3 None)]\<rparr>"
  "heap chain3 3 = zero_Promise"
  "fresh chain3 = 4" "goroutines chain3 = []" "trace chain3 = []" "crashed chain3 = None"
  using chain2_eq
  by (simp_all add: chain3_def Then_eq heap_flush goroutines_flush zero_Promise_def)

lemma chain_resolved_eq:
  "heap chain_resolved 1 = \<lparr>state = pending, pvalue = VNil,
      success = [Some (WrapSuccess 2 (Some (Fn 2 process)))], failure = [Some (WrapFailure 2 None)]\<rparr>"
  "heap chain_resolved 2 = \<lparr>state = pending, pvalue = VNil,
      success = [Some (WrapSuccess 3 (Some (Fn 3 process)))], failure = [Some (WrapFailure 3 None)]\<rparr>"
  "heap chain_resolved 3 = zero_Promise"
  "goroutines chain_resolved = [GoSendSoon (VInt 1) [Some (WrapSuccess 1 (Some (Fn 1 process)))]]"
  "trace chain_resolved = []" "crashed chain_resolved = None"
  using chain3_eq
  by (simp_all add: chain_resolved_def Resolve_pending)

lemma chain_run1_eq:
  "heap chain_run1 2 = \<lparr>state = pending, pvalue = VNil,
      success = [Some (WrapSuccess 3 (Some (Fn 3 process)))], failure = [Some (WrapFailure 3 None)]\<rparr>"
  "heap chain_run1 3 = zero_Promise"
  "goroutines chain_run1 = [GoSendSoon (VInt 2) [Some (WrapSuccess 2 (Some (Fn 2 process)))]]"
  "trace chain_run1 = [(1, VInt 1)]" "crashed chain_run1 = None"
  using chain_resolved_eq
  by (simp_all add: chain_run1_def exec_def safe_def process_def Resolve_pending)

lemma chain_run2_eq:
  "heap chain_run2 3 = zero_Promise"
  "goroutines chain_run2 = [GoSendSoon (VInt 3) [Some (WrapSuccess 3 (Some (Fn 3 process)))]]"
  "trace chain_run2 = [(1, VInt 1), (2, VInt 2)]" "crashed chain_run2 = None"
  using chain_run1_eq
  by (simp_all add: chain_run2_def exec_def safe_def process_def Resolve_pending)

lemma chain_run3_eq:
  "goroutines chain_run3 = [GoSendSoon (VInt 4) []]"
  "trace chain_run3 = [(1, VInt 1), (2, VInt 2), (3, VInt 3)]" "crashed chain_run3 = None"
  using chain_run2_eq
  by (simp_all add: chain_run3_def exec_def safe_def process_def Resolve_pending zero_Promise_def)

lemma chain_run4_eq:
  "goroutines chain_run4 = []"
  "trace chain_run4 = [(1, VInt 1), (2, VInt 2), (3, VInt 3)]" "crashed chain_run4 = None"
  using chain_run3_eq
  by (simp_all add: chain_run4_def exec_def)

lemma chain_reachable:
  "rtranclp sched chain_resolved w \<Longrightarrow>
   w \<in> {chain_resolved, chain_run1, chain_run2, chain_run3, chain_run4}"
proof (induction rule: rtranclp_induct)
  case base
  then show ?case by simp
next
  case (step w w')
  from step.hyps(2) obtain i where i: "i < length (goroutines w)" and w': "w' = exec i w"
    by (auto elim: sched.cases)
  from step.IH consider "w = chain_resolved" | "w = chain_run1" | "w = chain_run2"
    | "w = chain_run3" | "w = chain_run4" by auto
  then show ?case
  proof cases
    case 1
    with i w' chain_resolved_eq show ?thesis by (simp add: chain_run1_def)
  next
    case 2
    with i w' chain_run1_eq show ?thesis by (simp add: chain_run2_def)
  next
    case 3
    with i w' chain_run2_eq show ?thesis by (simp add: chain_run3_def)
  next
    case 4
    with i w' chain_run3_eq show ?thesis by (simp add: chain_run4_def)
  next
    case 5
    with i chain_run4_eq show ?thesis by simp
  qed
qed

lemma chain_completes: "rtranclp sched chain_resolved chain_run4"
proof -
  have "sched chain_resolved chain_run1"
    unfolding chain_run1_def using chain_resolved_eq by (intro sched.pick) simp_all
  moreover have "sched chain_run1 chain_run2"
    unfolding chain_run2_def using chain_run1_eq by (intro sched.pick) simp_all
  moreover have "sched chain_run2 chain_run3"
    unfolding chain_run3_def using chain_run2_eq by (intro sched.pick) simp_all
  moreover have "sched chain_run3 chain_run4"
    unfolding chain_run4_def using chain_run3_eq by (intro sched.pick) simp_all
  ultimately show ?thesis by simp
qed

subsection \<open>The chain, added to a root that is already resolved\<close>

lemma late1_eq:
  "heap late1 0 = \<lparr>state = fulfilled, pvalue = VInt 1, success = [], failure = []\<rparr>"
  "heap late1 1 = zero_Promise"
  "fresh late1 = 2"
  "goroutines late1 = [GoSendSoon (VInt 1) [], GoSendSoon (VInt 1) [Some (WrapSuccess 1 (Some (Fn 1 process)))]]"
  "trace late1 = []" "crashed late1 = None"
  using root_fulfilled_eq
  by (simp_all add: late1_def Then_eq heap_flush goroutines_flush)

lemma late2_eq:
  "heap late2 1 = link 1"
  "heap late2 2 = zero_Promise"
  "fresh late2 = 3"
  "goroutines late2 = [GoSendSoon (VInt 1) [], GoSendSoon (VInt 1) [Some (WrapSuccess 1 (Some (Fn 1 process)))]]"
  "trace late2 = []" "crashed late2 = None"
  using late1_eq
  by (simp_all add: late2_def Then_eq heap_flush goroutines_flush zero_Promise_def link_def)

lemma late_chain_eq:
  "heap late_chain 1 = link 1"
  "heap late_chain 2 = link 2"
  "heap late_chain 3 = link 3"
  "goroutines late_chain = [GoSendSoon (VInt 1) [], dispatch 0]"
  "trace late_chain = []" "crashed late_chain = None"
  using late2_eq
  by (simp_all add: late_chain_def Then_eq heap_flush goroutines_flush zero_Promise_def link_def dispatch_def)

lemma late_stage_0: "late_stage 0 True late_chain"
  using late_chain_eq by (simp add: late_stage_def)

lemma late_stage_empty:
  assumes "late_stage k True w"
  shows "late_stage k False (exec 0 w)"
proof -
  have e: "exec 0 w = w\<lparr>goroutines := (if k \<le> 3 then [dispatch k] else [])\<rparr>"
    using assms by (simp add: exec_def late_stage_def)
  from assms show ?thesis
    unfolding e by (simp add: late_stage_def)
qed

lemma late_stage_dispatch:
  assumes "late_stage k e w" "k \<le> 3"
  shows "late_stage (Suc k) e (exec (if e then 1 else 0) w)"
proof -
  from assms(2) consider "k = 0" | "k = 1" | "k = 2" | "k = 3" by linarith
  then show ?thesis
  proof cases
    case 1
    with assms show ?thesis
      by (cases e) (simp_all add: late_stage_def exec_def safe_def process_def Resolve_pending
          link_def dispatch_def handler_calls_def zero_Promise_def numeral_2_eq_2 numeral_3_eq_3)
  next
    case 2
    with assms show ?thesis
      by (cases e) (simp_all add: late_stage_def exec_def safe_def process_def Resolve_pending
          link_def dispatch_def handler_calls_def zero_Promise_def numeral_2_eq_2 numeral_3_eq_3)
  next
    case 3
    with assms show ?thesis
      by (cases e) (simp_all add: late_stage_def exec_def safe_def process_def Resolve_pending
          link_def dispatch_def handler_calls_def zero_Promise_def numeral_2_eq_2 numeral_3_eq_3)
  next
    case 4
    with assms show ?thesis
      by (cases e) (simp_all add: late_stage_def exec_def safe_def process_def Resolve_pending
          link_def dispatch_def handler_calls_def zero_Promise_def numeral_2_eq_2 numeral_3_eq_3)
  qed
qed

lemma late_stage_step:
  assumes "late_stage k e w" "i < length (goroutines w)"
  shows "\<exists>k' e'. late_stage k' e' (exec i w)"
proof (cases e)
  case True
  with assms(1) have t: "late_stage k True w" by simp
  show ?thesis
  proof (cases "i = 0")
    case True
    with late_stage_empty [OF t] show ?thesis by blast
  next
    case False
    with assms(2) t have "k \<le> 3" "i = 1" by (auto simp: late_stage_def split: if_splits)
    with late_stage_dispatch [OF t] show ?thesis by auto
  qed
next
  case False
  with assms(1) have f: "late_stage k False w" by simp
  with assms(2) have "k \<le> 3" "i = 0" by (auto simp: late_stage_def split: if_splits)
  with late_stage_dispatch [OF f] show ?thesis by auto
qed

lemma late_reachable:
  "rtranclp sched late_chain w \<Longrightarrow> \<exists>k e. late_stage k e w"
proof (induction rule: rtranclp_induct)
  case base
  from late_stage_0 show ?case by blast
next
  case (step w w')
  from step.hyps(2) obtain i where i: "i < length (goroutines w)" and w': "w' = exec i w"
    by (auto elim: sched.cases)
  from step.IH obtain k e where "late_stage k e w" by blast
  from late_stage_step [OF this i] w' show ?case by simp
qed

lemma late_stage_sched:
  "late_stage k e w \<Longrightarrow> i < length (goroutines w) \<Longrightarrow> sched w (exec i w)"
  by (intro sched.pick) (simp_all add: late_stage_def)

lemma late_completes:
  "rtranclp sched late_chain (exec 0 (exec 0 (exec 0 (exec 0 (exec 0 late_chain))))) \<and>
   late_stage 4 False (exec 0 (exec 0 (exec 0 (exec 0 (exec 0 late_chain)))))"
proof -
  define w0 where "w0 = exec 0 late_chain"
  define w1 where "w1 = exec 0 w0"
  define w2 where "w2 = exec 0 w1"
  define w3 where "w3 = exec 0 w2"
  define w4 where "w4 = exec 0 w3"
  have 0: "late_stage 0 False w0"
    unfolding w0_def by (rule late_stage_empty [OF late_stage_0])
  from late_stage_dispatch [OF 0] have 1: "late_stage 1 False w1" by (simp add: w1_def)
  from late_stage_dispatch [OF 1] have 2: "late_stage 2 False w2"
    by (simp add: w2_def numeral_2_eq_2)
  from late_stage_dispatch [OF 2] have 3: "late_stage 3 False w3"
    by (simp add: w3_def numeral_3_eq_3)
  from late_stage_dispatch [OF 3] have 4: "late_stage 4 False w4"
    by (simp add: w4_def eval_nat_numeral)
  have "sched late_chain w0"
    unfolding w0_def using late_stage_0 by (rule late_stage_sched) (simp add: late_chain_eq)
  moreover have "sched w0 w1"
    unfolding w1_def using 0 by (rule late_stage_sched) (use 0 in \<open>simp add: late_stage_def\<close>)
  moreover have "sched w1 w2"
    unfolding w2_def using 1 by (rule late_stage_sched) (use 1 in \<open>simp add: late_stage_def\<close>)
  moreover have "sched w2 w3"
    unfolding w3_def using 2 by (rule late_stage_sched) (use 2 in \<open>simp add: late_stage_def\<close>)
  moreover have "sched w3 w4"
    unfolding w4_def using 3 by (rule late_stage_sched) (use 3 in \<open>simp add: late_stage_def\<close>)
  ultimately have "rtranclp sched late_chain w4" by simp
  with 4 show ?thesis by (simp add: w4_def w3_def w2_def w1_def w0_def)
qed

lemma late_stage_trace:
  assumes "late_stage k e w"
  shows "crashed w = None"
    and "trace w \<in> {[], [(1, VInt 1)], [(1, VInt 1), (2, VInt 2)], [(1, VInt 1), (2, VInt 2), (3, VInt 3)]}"
    and "goroutines w = [] \<Longrightarrow> trace w = [(1, VInt 1), (2, VInt 2), (3, VInt 3)]"
proof -
  from assms show "crashed w = None" by (simp add: late_stage_def)
  consider "k = 0" | "k = 1" | "k = 2" | "k \<ge> 3" by linarith
  then show "trace w \<in> {[], [(1, VInt 1)], [(1, VInt 1), (2, VInt 2)], [(1, VInt 1), (2, VInt 2), (3, VInt 3)]}"
    using assms by cases (simp_all add: late_stage_def handler_calls_def numeral_2_eq_2)
  assume "goroutines w = []"
  with assms have "k > 3" by (auto simp: late_stage_def split: if_splits)
  with assms show "trace w = [(1, VInt 1), (2, VInt 2), (3, VInt 3)]"
    by (simp add: late_stage_def handler_calls_def)
qed

text \<open>
  Claim C5. The chain \<open>root.Then(f1).Then(f2).Then(f3)\<close>, each \<open>f\<^sub>i\<close> returning its
  input plus one, on a root resolved with 1: in \<open>chain_resolved\<close> the chain is built on
  the pending root, which is then resolved; in \<open>late_chain\<close> the root is resolved first
  and the chain is built then. In both, whatever goroutines the scheduler picks, the
  program never crashes, the handlers are called in the order \<open>f1\<close>, \<open>f2\<close>, \<open>f3\<close>
  with 1, 2 and 3, and once no goroutine is left all three have been called; and the
  scheduler can reach that end.
\<close>

theorem chain_composition:
  "(\<forall>w. rtranclp sched chain_resolved w \<longrightarrow>
        crashed w = None \<and>
        trace w \<in> {[], [(1, VInt 1)], [(1, VInt 1), (2, VInt 2)], [(1, VInt 1), (2, VInt 2), (3, VInt 3)]} \<and>
        (goroutines w = [] \<longrightarrow> trace w = [(1, VInt 1), (2, VInt 2), (3, VInt 3)])) \<and>
   (\<exists>w. rtranclp sched chain_resolved w \<and> goroutines w = []) \<and>
   (\<forall>w. rtranclp sched late_chain w \<longrightarrow>
        crashed w = None \<and>
        trace w \<in> {[], [(1, VInt 1)], [(1, VInt 1), (2, VInt 2)], [(1, VInt 1), (2, VInt 2), (3, VInt 3)]} \<and>
        (goroutines w = [] \<longrightarrow> trace w = [(1, VInt 1), (2, VInt 2), (3, VInt 3)])) \<and>
   (\<exists>w. rtranclp sched late_chain w \<and> goroutines w = [])"
proof (intro conjI allI impI)
  fix w assume r: "rtranclp sched chain_resolved w"
  from chain_reachable [OF r] consider "w = chain_resolved" | "w = chain_run1" | "w = chain_run2"
    | "w = chain_run3" | "w = chain_run4" by auto
  note cs = this
  from cs show "crashed w = None"
    using chain_resolved_eq chain_run1_eq chain_run2_eq chain_run3_eq chain_run4_eq
    by cases simp_all
  from cs show "trace w \<in> {[], [(1, VInt 1)], [(1, VInt 1), (2, VInt 2)], [(1, VInt 1), (2, VInt 2), (3, VInt 3)]}"
    using chain_resolved_eq chain_run1_eq chain_run2_eq chain_run3_eq chain_run4_eq
    by cases simp_all
  assume e: "goroutines w = []"
  from cs e show "trace w = [(1, VInt 1), (2, VInt 2), (3, VInt 3)]"
    using chain_resolved_eq chain_run1_eq chain_run2_eq chain_run3_eq chain_run4_eq
    by cases simp_all
next
  from chain_completes chain_run4_eq show "\<exists>w. rtranclp sched chain_resolved w \<and> goroutines w = []"
    by blast
next
  fix w assume "rtranclp sched late_chain w"
  from late_reachable [OF this] obtain k e where s: "late_stage k e w" by blast
  from late_stage_trace [OF s] show "crashed w = None"
    and "trace w \<in> {[], [(1, VInt 1)], [(1, VInt 1), (2, VInt 2)], [(1, VInt 1), (2, VInt 2), (3, VInt 3)]}"
    by simp_all
  assume "goroutines w = []"
  with late_stage_trace(3) [OF s] show "trace w = [(1, VInt 1), (2, VInt 2), (3, VInt 3)]" by simp
next
  from late_completes show "\<exists>w. rtranclp sched late_chain w \<and> goroutines w = []"
    by (auto simp: late_stage_def)
qed

theorem chain_composition_witness:
  "rtranclp sched chain_resolved chain_run4 \<and> goroutines chain_run4 = [] \<and>
   crashed chain_run4 = None \<and>
   trace chain_run4 = [(1, VInt 1), (2, VInt 2), (3, VInt 3)] \<and>
   rtranclp sched late_chain (exec 0 (exec 0 (exec 0 (exec 0 (exec 0 late_chain))))) \<and>
   goroutines (exec 0 (exec 0 (exec 0 (exec 0 (exec 0 late_chain))))) = [] \<and>
   trace (exec 0 (exec 0 (exec 0 (exec 0 (exec 0 late_chain))))) =
     [(1, VInt 1), (2, VInt 2), (3, VInt 3)]"
proof -
  have g: "goroutines (exec 0 (exec 0 (exec 0 (exec 0 (exec 0 late_chain))))) = []"
    using late_completes by (simp add: late_stage_def)
  from chain_composition chain_completes chain_run4_eq(1) late_completes g
  show ?thesis by blast
qed

section \<open>Links with an absent callback\<close>

lemma passthrough_rejected:
  assumes "p \<noteq> fresh w" "state (heap w p) = rejected" "failure (heap w p) = []"
  shows "state (heap (exec (length (goroutines w)) (snd (Then p a None w))) (fresh w)) = rejected"
    and "pvalue (heap (exec (length (goroutines w)) (snd (Then p a None w))) (fresh w)) = pvalue (heap w p)"
    and "crashed (exec (length (goroutines w)) (snd (Then p a None w))) = crashed w"
  using assms(1)
  by (simp_all add: Then_rejected [OF assms] exec_def safe_def Reject_pending zero_Promise_def)

lemma passthrough_fulfilled:
  assumes "p \<noteq> fresh w" "state (heap w p) = fulfilled" "success (heap w p) = []"
  shows "state (heap (exec (length (goroutines w)) (snd (Then p None b w))) (fresh w)) = fulfilled"
    and "pvalue (heap (exec (length (goroutines w)) (snd (Then p None b w))) (fresh w)) = pvalue (heap w p)"
    and "crashed (exec (length (goroutines w)) (snd (Then p None b w))) = crashed w"
  using assms(1)
  by (simp_all add: Then_fulfilled [OF assms] exec_def safe_def Resolve_pending zero_Promise_def)

text \<open>
  Claim C6. The failure closure of a link made with no failure callback rejects the
  pending child with the reason it is called with, and the success closure of a link made
  with no success callback fulfils the pending child with the value it is called with.
  So a link with no failure callback added to a rejected promise, once its goroutine has
  run, leaves the child rejected with the reason of the parent, and a link with no
  success callback added to a fulfilled promise leaves the child fulfilled with the value
  of the parent.
\<close>

theorem absent_callback_passes_through:
  "(state (heap w c) = pending \<longrightarrow>
      fst (call (snd (wrap c a None)) v w) = Ok v \<and>
      state (heap (snd (call (snd (wrap c a None)) v w)) c) = rejected \<and>
      pvalue (heap (snd (call (snd (wrap c a None)) v w)) c) = v \<and>
      fst (call (fst (wrap c None b)) v w) = Ok v \<and>
      state (heap (snd (call (fst (wrap c None b)) v w)) c) = fulfilled \<and>
      pvalue (heap (snd (call (fst (wrap c None b)) v w)) c) = v) \<and>
   (p \<noteq> fresh w \<and> state (heap w p) = rejected \<and> failure (heap w p) = [] \<longrightarrow>
      fst (Then p a None w) = fresh w \<and>
      state (heap (exec (length (goroutines w)) (snd (Then p a None w))) (fresh w)) = rejected \<and>
      pvalue (heap (exec (length (goroutines w)) (snd (Then p a None w))) (fresh w)) = pvalue (heap w p) \<and>
      crashed (exec (length (goroutines w)) (snd (Then p a None w))) = crashed w) \<and>
   (p \<noteq> fresh w \<and> state (heap w p) = fulfilled \<and> success (heap w p) = [] \<longrightarrow>
      fst (Then p None b w) = fresh w \<and>
      state (heap (exec (length (goroutines w)) (snd (Then p None b w))) (fresh w)) = fulfilled \<and>
      pvalue (heap (exec (length (goroutines w)) (snd (Then p None b w))) (fresh w)) = pvalue (heap w p) \<and>
      crashed (exec (length (goroutines w)) (snd (Then p None b w))) = crashed w)"
proof (intro conjI impI)
  assume pend: "state (heap w c) = pending"
  show "fst (call (snd (wrap c a None)) v w) = Ok v"
    by (simp add: wrap_def call_WrapFailure_None Reject_pending pend del: call.simps)
  show "state (heap (snd (call (snd (wrap c a None)) v w)) c) = rejected"
    by (simp add: wrap_def call_WrapFailure_None Reject_pending pend del: call.simps)
  show "pvalue (heap (snd (call (snd (wrap c a None)) v w)) c) = v"
    by (simp add: wrap_def call_WrapFailure_None Reject_pending pend del: call.simps)
  show "fst (call (fst (wrap c None b)) v w) = Ok v"
    by (simp add: wrap_def call_WrapSuccess_None Resolve_pending pend del: call.simps)
  show "state (heap (snd (call (fst (wrap c None b)) v w)) c) = fulfilled"
    by (simp add: wrap_def call_WrapSuccess_None Resolve_pending pend del: call.simps)
  show "pvalue (heap (snd (call (fst (wrap c None b)) v w)) c) = v"
    by (simp add: wrap_def call_WrapSuccess_None Resolve_pending pend del: call.simps)
next
  assume h: "p \<noteq> fresh w \<and> state (heap w p) = rejected \<and> failure (heap w p) = []"
  show "fst (Then p a None w) = fresh w" by (simp add: Then_eq)
  from h show "state (heap (exec (length (goroutines w)) (snd (Then p a None w))) (fresh w)) = rejected"
    by (simp add: passthrough_rejected)
  from h show "pvalue (heap (exec (length (goroutines w)) (snd (Then p a None w))) (fresh w)) = pvalue (heap w p)"
    by (simp add: passthrough_rejected)
  from h show "crashed (exec (length (goroutines w)) (snd (Then p a None w))) = crashed w"
    by (simp add: passthrough_rejected)
next
  assume h: "p \<noteq> fresh w \<and> state (heap w p) = fulfilled \<and> success (heap w p) = []"
  show "fst (Then p None b w) = fresh w" by (simp add: Then_eq)
  from h show "state (heap (exec (length (goroutines w)) (snd (Then p None b w))) (fresh w)) = fulfilled"
    by (simp add: passthrough_fulfilled)
  from h show "pvalue (heap (exec (length (goroutines w)) (snd (Then p None b w))) (fresh w)) = pvalue (heap w p)"
    by (simp add: passthrough_fulfilled)
  from h show "crashed (exec (length (goroutines w)) (snd (Then p None b w))) = crashed w"
    by (simp add: passthrough_fulfilled)
qed

theorem absent_callback_passes_through_witness:
  "state (heap root_pending 0) = pending \<and>
   state (heap (snd (call (snd (wrap 0 None None)) (VInt 5) root_pending)) 0) = rejected \<and>
   pvalue (heap (snd (call (snd (wrap 0 None None)) (VInt 5) root_pending)) 0) = VInt 5 \<and>
   pvalue (heap (snd (call (fst (wrap 0 None None)) (VInt 5) root_pending)) 0) = VInt 5 \<and>
   (0 \<noteq> fresh root_rejected \<and> state (heap root_rejected 0) = rejected \<and>
    failure (heap root_rejected 0) = []) \<and>
   state (heap (exec 1 (snd (Then 0 None None root_rejected))) 1) = rejected \<and>
   pvalue (heap (exec 1 (snd (Then 0 None None root_rejected))) 1) = VInt 1 \<and>
   (0 \<noteq> fresh root_fulfilled \<and> state (heap root_fulfilled 0) = fulfilled \<and>
    success (heap root_fulfilled 0) = []) \<and>
   state (heap (exec 1 (snd (Then 0 None None root_fulfilled))) 1) = fulfilled \<and>
   pvalue (heap (exec 1 (snd (Then 0 None None root_fulfilled))) 1) = VInt 1"
proof -
  have h1: "state (heap root_pending 0) = pending"
    using root_pending_eq by (simp add: zero_Promise_def)
  have h2: "0 \<noteq> fresh root_rejected \<and> state (heap root_rejected 0) = rejected \<and>
      failure (heap root_rejected 0) = []"
    using root_rejected_eq by simp
  have h3: "0 \<noteq> fresh root_fulfilled \<and> state (heap root_fulfilled 0) = fulfilled \<and>
      success (heap root_fulfilled 0) = []"
    using root_fulfilled_eq by simp
  from absent_callback_passes_through [of root_pending 0 None "VInt 5" None]
    absent_callback_passes_through [of root_rejected _ _ _ _ 0]
    absent_callback_passes_through [of root_fulfilled _ _ _ _ 0]
    h1 h2 h3 root_rejected_eq root_fulfilled_eq
  show ?thesis by simp
qed

section \<open>The zero value of Promise\<close>

text \<open>
  Claim C10. The zero value of \<open>Promise\<close> is pending, with a nil value and empty queues;
  it is what \<open>var p Promise\<close> gives, in a program, in \<open>Then\<close> (the child) and in
  \<open>Promisify\<close>. \<open>Resolve\<close>, \<open>Reject\<close> and \<open>Then\<close> look at nothing but the state of a
  promise to decide that it is pending, so they act on a zero promise as on every pending
  promise: they succeed, settle it or add the link, and start the goroutine of its (empty)
  queue.
\<close>

theorem zero_Promise_is_pending:
  "state zero_Promise = pending \<and> pvalue zero_Promise = VNil \<and>
   success zero_Promise = [] \<and> failure zero_Promise = [] \<and>
   heap (snd (new_Promise w)) (fst (new_Promise w)) = zero_Promise \<and>
   heap (snd (Promisify f args w)) (fst (Promisify f args w)) = zero_Promise \<and>
   (p \<noteq> fresh w \<longrightarrow> heap (snd (Then p a b w)) (fst (Then p a b w)) = zero_Promise) \<and>
   (state (heap w p) = pending \<longrightarrow>
      Resolve p v w =
        (Ok v, w\<lparr>heap := (heap w)(p := (heap w p)\<lparr>state := fulfilled, pvalue := v, success := [], failure := []\<rparr>),
                 goroutines := goroutines w @ [GoSendSoon v (success (heap w p))]\<rparr>) \<and>
      Reject p v w =
        (Ok v, w\<lparr>heap := (heap w)(p := (heap w p)\<lparr>state := rejected, pvalue := v, success := [], failure := []\<rparr>),
                 goroutines := goroutines w @ [GoSendSoon v (failure (heap w p))]\<rparr>)) \<and>
   (p \<noteq> fresh w \<and> state (heap w p) = pending \<longrightarrow>
      Then p a b w =
        (fresh w,
         w\<lparr>heap := (heap w)(fresh w := zero_Promise,
                     p := (heap w p)\<lparr>success := success (heap w p) @ [Some (WrapSuccess (fresh w) a)],
                                     failure := failure (heap w p) @ [Some (WrapFailure (fresh w) b)]\<rparr>),
           fresh := Suc (fresh w)\<rparr>)) \<and>
   (heap w p = zero_Promise \<longrightarrow>
      Resolve p v w =
        (Ok v, w\<lparr>heap := (heap w)(p := \<lparr>state = fulfilled, pvalue = v, success = [], failure = []\<rparr>),
                 goroutines := goroutines w @ [GoSendSoon v []]\<rparr>) \<and>
      Reject p v w =
        (Ok v, w\<lparr>heap := (heap w)(p := \<lparr>state = rejected, pvalue = v, success = [], failure = []\<rparr>),
                 goroutines := goroutines w @ [GoSendSoon v []]\<rparr>))"
proof (intro conjI impI)
  show "state zero_Promise = pending" "pvalue zero_Promise = VNil"
    "success zero_Promise = []" "failure zero_Promise = []"
    by (simp_all add: zero_Promise_def)
  show "heap (snd (new_Promise w)) (fst (new_Promise w)) = zero_Promise" by simp
  show "heap (snd (Promisify f args w)) (fst (Promisify f args w)) = zero_Promise"
    by (simp add: Promisify_eq)
next
  assume "p \<noteq> fresh w"
  then show "heap (snd (Then p a b w)) (fst (Then p a b w)) = zero_Promise"
    by (simp add: Then_eq heap_flush)
next
  assume pend: "state (heap w p) = pending"
  show "Resolve p v w =
        (Ok v, w\<lparr>heap := (heap w)(p := (heap w p)\<lparr>state := fulfilled, pvalue := v, success := [], failure := []\<rparr>),
                 goroutines := goroutines w @ [GoSendSoon v (success (heap w p))]\<rparr>)"
    by (rule Resolve_pending_world [OF pend])
  show "Reject p v w =
        (Ok v, w\<lparr>heap := (heap w)(p := (heap w p)\<lparr>state := rejected, pvalue := v, success := [], failure := []\<rparr>),
                 goroutines := goroutines w @ [GoSendSoon v (failure (heap w p))]\<rparr>)"
    by (rule Reject_pending_world [OF pend])
next
  assume "p \<noteq> fresh w \<and> state (heap w p) = pending"
  then show "Then p a b w =
        (fresh w,
         w\<lparr>heap := (heap w)(fresh w := zero_Promise,
                     p := (heap w p)\<lparr>success := success (heap w p) @ [Some (WrapSuccess (fresh w) a)],
                                     failure := failure (heap w p) @ [Some (WrapFailure (fresh w) b)]\<rparr>),
           fresh := Suc (fresh w)\<rparr>)"
    by (simp add: Then_pending_world)
next
  assume z: "heap w p = zero_Promise"
  then have pend: "state (heap w p) = pending" by (simp add: zero_Promise_def)
  show "Resolve p v w =
        (Ok v, w\<lparr>heap := (heap w)(p := \<lparr>state = fulfilled, pvalue = v, success = [], failure = []\<rparr>),
                 goroutines := goroutines w @ [GoSendSoon v []]\<rparr>)"
    by (simp add: Resolve_pending_world [OF pend] z zero_Promise_def)
  show "Reject p v w =
        (Ok v, w\<lparr>heap := (heap w)(p := \<lparr>state = rejected, pvalue = v, success = [], failure = []\<rparr>),
                 goroutines := goroutines w @ [GoSendSoon v []]\<rparr>)"
    by (simp add: Reject_pending_world [OF pend] z zero_Promise_def)
qed

theorem zero_Promise_is_pending_witness:
  "0 \<noteq> fresh root_pending \<and> heap root_pending 0 = zero_Promise \<and>
   state (heap root_pending 0) = pending \<and>
   heap (snd (Then 0 None None root_pending)) (fst (Then 0 None None root_pending)) = zero_Promise \<and>
   fst (Resolve 0 (VInt 1) root_pending) = Ok (VInt 1) \<and>
   fst (Reject 0 (VInt 1) root_pending) = Ok (VInt 1) \<and>
   fst (Then 0 None None root_pending) = 1 \<and>
   goroutines (snd (Resolve 0 (VInt 1) root_pending)) = [GoSendSoon (VInt 1) []]"
proof -
  have h: "0 \<noteq> fresh root_pending" "heap root_pending 0 = zero_Promise"
    "state (heap root_pending 0) = pending"
    using root_pending_eq by (simp_all add: zero_Promise_def)
  from zero_Promise_is_pending [of root_pending _ _ 0 None None "VInt 1"] h root_pending_eq
  show ?thesis by simp
qed

section \<open>Callbacks that panic\<close>

lemma link_failure_panics_eq:
  "heap link_failure_panics 0 =
     \<lparr>state = pending, pvalue = VNil, success = [Some (WrapSuccess 1 None)],
      failure = [Some (WrapFailure 1 (Some (Fn 1 panicIfCalled)))]\<rparr>"
  "heap link_failure_panics 1 = zero_Promise"
  "goroutines link_failure_panics = []" "crashed link_failure_panics = None"
  using root_pending_eq
  by (simp_all add: link_failure_panics_def Then_eq heap_flush goroutines_flush zero_Promise_def)

lemma rejected_failure_panics_eq:
  "state (heap rejected_failure_panics 0) = rejected"
  "state (heap rejected_failure_panics 1) = pending"
  "goroutines rejected_failure_panics =
     [GoSendSoon (VInt 1) [Some (WrapFailure 1 (Some (Fn 1 panicIfCalled)))]]"
  "crashed rejected_failure_panics = None"
  using link_failure_panics_eq
  by (simp_all add: rejected_failure_panics_def Reject_pending zero_Promise_def)

lemma link_success_panics_eq:
  "heap link_success_panics 0 =
     \<lparr>state = pending, pvalue = VNil, success = [Some (WrapSuccess 1 (Some (Fn 1 panicIfCalled)))],
      failure = [Some (WrapFailure 1 None)]\<rparr>"
  "heap link_success_panics 1 = zero_Promise"
  "goroutines link_success_panics = []" "crashed link_success_panics = None"
  using root_pending_eq
  by (simp_all add: link_success_panics_def Then_eq heap_flush goroutines_flush zero_Promise_def)

lemma fulfilled_success_panics_eq:
  "state (heap fulfilled_success_panics 0) = fulfilled"
  "state (heap fulfilled_success_panics 1) = pending"
  "goroutines fulfilled_success_panics =
     [GoSendSoon (VInt 1) [Some (WrapSuccess 1 (Some (Fn 1 panicIfCalled)))]]"
  "crashed fulfilled_success_panics = None"
  using link_success_panics_eq
  by (simp_all add: fulfilled_success_panics_def Resolve_pending zero_Promise_def)

text \<open>
  Claim C3, at a failure callback that panics. The root is declared, a link with the
  failure callback \<open>panicIfCalled\<close> is added, the root is rejected with 1 and the
  goroutine of its failure queue runs: the panic value \<open>''oops''\<close> leaves the goroutine
  and ends the program, and the child is still pending. With the same callback on the
  success side of a root that is resolved, the panic is recovered and the child is
  rejected with \<open>''oops''\<close>.
\<close>

theorem failure_callback_panic_escapes:
  "crashed failure_panics = Some (VStr ''oops'') \<and>
   state (heap failure_panics 1) = pending \<and>
   crashed success_panics = None \<and>
   state (heap success_panics 1) = rejected \<and>
   pvalue (heap success_panics 1) = VStr ''oops''"
proof (intro conjI)
  show "crashed failure_panics = Some (VStr ''oops'')"
    using rejected_failure_panics_eq
    by (simp add: failure_panics_def exec_def safe_def panicIfCalled_def)
  show "state (heap failure_panics 1) = pending"
    using rejected_failure_panics_eq
    by (simp add: failure_panics_def exec_def safe_def panicIfCalled_def)
  show "crashed success_panics = None"
    using fulfilled_success_panics_eq
    by (simp add: success_panics_def exec_def safe_def panicIfCalled_def recovered_def Reject_pending)
  show "state (heap success_panics 1) = rejected"
    using fulfilled_success_panics_eq
    by (simp add: success_panics_def exec_def safe_def panicIfCalled_def recovered_def Reject_pending)
  show "pvalue (heap success_panics 1) = VStr ''oops''"
    using fulfilled_success_panics_eq
    by (simp add: success_panics_def exec_def safe_def panicIfCalled_def recovered_def Reject_pending)
qed

section \<open>What Promisify does with the results\<close>

lemma unReflectAll_map: "unReflectAll (map ValueOf' vs) = Ok vs"
  by (induction vs) simp_all

lemma desliceOne_cases:
  "desliceOne vs = (case vs of [] \<Rightarrow> VNil | [x] \<Rightarrow> x | _ \<Rightarrow> VSlice vs)"
  by (cases vs rule: list.exhaust; simp add: desliceOne_def split: list.splits)

lemma splitResults_no_error_channel:
  "splitResults (map ValueOf' vs) False = Ok (desliceOne vs, None)"
  by (simp add: splitResults_def splitResults_return_def unReflectAll_map)

lemma splitResults_nil_error:
  "splitResults (map ValueOf' vs @ [ValueOf' VNil]) True = Ok (desliceOne vs, None)"
  by (simp add: splitResults_def splitResults_return_def unReflectAll_map Let_def nth_append)

lemma splitResults_error:
  "splitResults (map ValueOf' vs @ [ValueOf' (VErr e)]) True = Ok (desliceOne vs, Some e)"
  by (simp add: splitResults_def splitResults_return_def unReflectAll_map Let_def nth_append)

lemma Promisify_go_rejects:
  assumes "hasLastError (Type f)"
    and "Call f (reflectAll args) = Ok (map ValueOf' vs @ [ValueOf' (VErr e)])"
  shows "Promisify_go f args p w =
     (case Reject p (VStr (Error e)) w of (Panic x, w1) \<Rightarrow> (Panic x, w1) | (Ok _, w1) \<Rightarrow> (Ok (), w1))"
  using assms by (simp add: Promisify_go_def splitResults_error)

lemma Promisify_go_resolves:
  assumes "Call f (reflectAll args) = Ok results"
    and "\<not> hasLastError (Type f) \<and> results = map ValueOf' vs \<or>
         hasLastError (Type f) \<and> results = map ValueOf' vs @ [ValueOf' VNil]"
  shows "Promisify_go f args p w =
     (case Resolve p (desliceOne vs) w of (Panic x, w1) \<Rightarrow> (Panic x, w1) | (Ok _, w1) \<Rightarrow> (Ok (), w1))"
  using assms
  by (auto simp: Promisify_go_def splitResults_no_error_channel splitResults_nil_error)

text \<open>
  Claim C1, as the code has it. When the last declared result of the function is of type
  \<open>error\<close> and the call returns an error there, the goroutine of \<open>Promisify\<close> rejects
  the promise, if it is still pending, with the string that the \<open>Error\<close> method of the
  error returns, whatever the other results are; so does the program that calls the
  promisified function and lets its goroutine run.
\<close>

theorem Promisify_rejects_with_error_message:
  assumes "hasLastError (Type f)"
    and "Call f (reflectAll args) = Ok (map ValueOf' vs @ [ValueOf' (VErr e)])"
  shows "(state (heap w p) = pending \<longrightarrow>
            fst (run (GoPromisify f args p) w) = Ok () \<and>
            state (heap (snd (run (GoPromisify f args p) w)) p) = rejected \<and>
            pvalue (heap (snd (run (GoPromisify f args p) w)) p) = VStr (Error e)) \<and>
         state (heap (exec (length (goroutines w)) (snd (Promisify f args w))) (fst (Promisify f args w)))
           = rejected \<and>
         pvalue (heap (exec (length (goroutines w)) (snd (Promisify f args w))) (fst (Promisify f args w)))
           = VStr (Error e) \<and>
         crashed (exec (length (goroutines w)) (snd (Promisify f args w))) = crashed w"
proof (intro conjI impI)
  assume pend: "state (heap w p) = pending"
  show "fst (run (GoPromisify f args p) w) = Ok ()"
    by (simp add: Promisify_go_rejects [OF assms] Reject_pending pend)
  show "state (heap (snd (run (GoPromisify f args p) w)) p) = rejected"
    by (simp add: Promisify_go_rejects [OF assms] Reject_pending pend)
  show "pvalue (heap (snd (run (GoPromisify f args p) w)) p) = VStr (Error e)"
    by (simp add: Promisify_go_rejects [OF assms] Reject_pending pend)
next
  show "state (heap (exec (length (goroutines w)) (snd (Promisify f args w))) (fst (Promisify f args w)))
           = rejected"
    by (simp add: exec_Promisify fst_Promisify Promisify_go_rejects [OF assms] Reject_pending
        zero_Promise_def)
  show "pvalue (heap (exec (length (goroutines w)) (snd (Promisify f args w))) (fst (Promisify f args w)))
           = VStr (Error e)"
    by (simp add: exec_Promisify fst_Promisify Promisify_go_rejects [OF assms] Reject_pending
        zero_Promise_def)
  show "crashed (exec (length (goroutines w)) (snd (Promisify f args w))) = crashed w"
    by (simp add: exec_Promisify fst_Promisify Promisify_go_rejects [OF assms] Reject_pending
        zero_Promise_def)
qed

lemma always_fails_eq:
  "hasLastError (Type always_fails)"
  "Call always_fails (reflectAll []) =
     Ok (map ValueOf' [VInt 7] @ [ValueOf' (VErr (errorString ''boom''))])"
  by (simp_all add: always_fails_def hasLastError_def NumOut_def Out_def errorType_def)

theorem Promisify_rejects_with_error_message_witness:
  "hasLastError (Type always_fails) \<and>
   Call always_fails (reflectAll []) =
     Ok (map ValueOf' [VInt 7] @ [ValueOf' (VErr (errorString ''boom''))]) \<and>
   state (heap root_pending 0) = pending \<and>
   pvalue (heap (snd (run (GoPromisify always_fails [] 0) root_pending)) 0) = VStr ''boom'' \<and>
   state (heap promisify_fails 0) = rejected \<and>
   pvalue (heap promisify_fails 0) = VStr ''boom''"
proof -
  have h: "state (heap root_pending 0) = pending"
    using root_pending_eq by (simp add: zero_Promise_def)
  from Promisify_rejects_with_error_message [OF always_fails_eq, of root_pending 0]
    Promisify_rejects_with_error_message [OF always_fails_eq, of world0]
    h always_fails_eq
  show ?thesis by (simp add: promisify_fails_def fst_Promisify world0_def)
qed

text \<open>
  Claim C1 as stated fails: the function returns the value 7 and the error
  \<open>errors.New("boom")\<close>; the promise is rejected, and its reason is the string
  \<open>''boom''\<close>, not the error value.
\<close>

theorem Promisify_reason_is_not_the_error:
  "state (heap promisify_fails 0) = rejected \<and>
   pvalue (heap promisify_fails 0) = VStr ''boom'' \<and>
   pvalue (heap promisify_fails 0) \<noteq> VErr (errorString ''boom'')"
proof -
  have e: "promisify_fails = exec (length (goroutines world0)) (snd (Promisify always_fails [] world0))"
    and z: "fresh world0 = 0"
    by (simp_all add: promisify_fails_def world0_def)
  show ?thesis
    unfolding e
    by (simp add: exec_Promisify Promisify_go_rejects [OF always_fails_eq] Reject_pending
        zero_Promise_def z)
qed

text \<open>
  Claim C2, at a function that panics. The promisified function is called and its
  goroutine runs: the panic value \<open>''oops''\<close> of the function leaves the goroutine and
  ends the program, and the promise is still pending.
\<close>

theorem Promisify_panic_escapes:
  "crashed promisify_panics = Some (VStr ''oops'') \<and>
   state (heap promisify_panics 0) = pending"
proof -
  have e: "promisify_panics = exec (length (goroutines world0)) (snd (Promisify always_panics [] world0))"
    and z: "fresh world0 = 0"
    by (simp_all add: promisify_panics_def world0_def)
  have c: "Call always_panics (reflectAll []) = Panic (VStr ''oops'')"
    by (simp add: always_panics_def)
  show ?thesis
    unfolding e by (simp add: exec_Promisify Promisify_go_def c zero_Promise_def z)
qed

text \<open>
  Claim C7. When the call returns and there is no error (the function declares no last
  result of type \<open>error\<close>, or it declares one and the call returns nil there), the
  goroutine of \<open>Promisify\<close> fulfils the promise, if it is still pending, with the other
  results folded: nil for none, the result itself for one, the slice of the results in
  their order for two or more; so does the program that calls the promisified function
  and lets its goroutine run.
\<close>

theorem Promisify_folds_results:
  assumes "Call f (reflectAll args) = Ok results"
    and "\<not> hasLastError (Type f) \<and> results = map ValueOf' vs \<or>
         hasLastError (Type f) \<and> results = map ValueOf' vs @ [ValueOf' VNil]"
  shows "(state (heap w p) = pending \<longrightarrow>
            fst (run (GoPromisify f args p) w) = Ok () \<and>
            state (heap (snd (run (GoPromisify f args p) w)) p) = fulfilled \<and>
            pvalue (heap (snd (run (GoPromisify f args p) w)) p) =
              (case vs of [] \<Rightarrow> VNil | [x] \<Rightarrow> x | _ \<Rightarrow> VSlice vs)) \<and>
         state (heap (exec (length (goroutines w)) (snd (Promisify f args w))) (fst (Promisify f args w)))
           = fulfilled \<and>
         pvalue (heap (exec (length (goroutines w)) (snd (Promisify f args w))) (fst (Promisify f args w)))
           = (case vs of [] \<Rightarrow> VNil | [x] \<Rightarrow> x | _ \<Rightarrow> VSlice vs) \<and>
         crashed (exec (length (goroutines w)) (snd (Promisify f args w))) = crashed w"
proof (intro conjI impI)
  assume pend: "state (heap w p) = pending"
  show "fst (run (GoPromisify f args p) w) = Ok ()"
    by (simp add: Promisify_go_resolves [OF assms] Resolve_pending pend)
  show "state (heap (snd (run (GoPromisify f args p) w)) p) = fulfilled"
    by (simp add: Promisify_go_resolves [OF assms] Resolve_pending pend)
  show "pvalue (heap (snd (run (GoPromisify f args p) w)) p) =
          (case vs of [] \<Rightarrow> VNil | [x] \<Rightarrow> x | _ \<Rightarrow> VSlice vs)"
    by (simp add: Promisify_go_resolves [OF assms] Resolve_pending pend desliceOne_cases)
next
  show "state (heap (exec (length (goroutines w)) (snd (Promisify f args w))) (fst (Promisify f args w)))
           = fulfilled"
    by (simp add: exec_Promisify fst_Promisify Promisify_go_resolves [OF assms] Resolve_pending
        zero_Promise_def)
  show "pvalue (heap (exec (length (goroutines w)) (snd (Promisify f args w))) (fst (Promisify f args w)))
           = (case vs of [] \<Rightarrow> VNil | [x] \<Rightarrow> x | _ \<Rightarrow> VSlice vs)"
    by (simp add: exec_Promisify fst_Promisify Promisify_go_resolves [OF assms] Resolve_pending
        zero_Promise_def desliceOne_cases)
  show "crashed (exec (length (goroutines w)) (snd (Promisify f args w))) = crashed w"
    by (simp add: exec_Promisify fst_Promisify Promisify_go_resolves [OF assms] Resolve_pending
        zero_Promise_def)
qed

lemma two_values_eq:
  "Call two_values (reflectAll []) = Ok [ValueOf' (VInt 7), ValueOf' (VStr ''seven'')]"
  "\<not> hasLastError (Type two_values) \<and>
     [ValueOf' (VInt 7), ValueOf' (VStr ''seven'')] = map ValueOf' [VInt 7, VStr ''seven''] \<or>
   hasLastError (Type two_values) \<and>
     [ValueOf' (VInt 7), ValueOf' (VStr ''seven'')] = map ValueOf' [VInt 7, VStr ''seven''] @ [ValueOf' VNil]"
  by (simp_all add: two_values_def hasLastError_def NumOut_def Out_def errorType_def)

lemma value_and_nil_error_eq:
  "Call value_and_nil_error (reflectAll []) = Ok [ValueOf' (VInt 7), ValueOf' VNil]"
  "\<not> hasLastError (Type value_and_nil_error) \<and>
     [ValueOf' (VInt 7), ValueOf' VNil] = map ValueOf' [VInt 7] \<or>
   hasLastError (Type value_and_nil_error) \<and>
     [ValueOf' (VInt 7), ValueOf' VNil] = map ValueOf' [VInt 7] @ [ValueOf' VNil]"
  by (simp_all add: value_and_nil_error_def hasLastError_def NumOut_def Out_def errorType_def)

theorem Promisify_folds_results_witness:
  "Call two_values (reflectAll []) = Ok [ValueOf' (VInt 7), ValueOf' (VStr ''seven'')] \<and>
   \<not> hasLastError (Type two_values) \<and>
   state (heap root_pending 0) = pending \<and>
   pvalue (heap (snd (run (GoPromisify two_values [] 0) root_pending)) 0) =
     VSlice [VInt 7, VStr ''seven''] \<and>
   state (heap (exec 0 (snd (Promisify two_values [] world0))) 0) = fulfilled \<and>
   pvalue (heap (exec 0 (snd (Promisify two_values [] world0))) 0) =
     VSlice [VInt 7, VStr ''seven''] \<and>
   Call value_and_nil_error (reflectAll []) = Ok [ValueOf' (VInt 7), ValueOf' VNil] \<and>
   hasLastError (Type value_and_nil_error) \<and>
   state (heap (exec 0 (snd (Promisify value_and_nil_error [] world0))) 0) = fulfilled \<and>
   pvalue (heap (exec 0 (snd (Promisify value_and_nil_error [] world0))) 0) = VInt 7"
proof -
  have h: "state (heap root_pending 0) = pending"
    using root_pending_eq by (simp add: zero_Promise_def)
  have t: "\<not> hasLastError (Type two_values)" "hasLastError (Type value_and_nil_error)"
    by (simp_all add: two_values_def value_and_nil_error_def hasLastError_def NumOut_def Out_def
        errorType_def)
  have z: "length (goroutines world0) = 0" "fresh world0 = 0"
    by (simp_all add: world0_def)
  from Promisify_folds_results [OF two_values_eq, of root_pending 0]
    Promisify_folds_results [OF two_values_eq, of world0]
    Promisify_folds_results [OF value_and_nil_error_eq, of world0]
    h t z two_values_eq(1) value_and_nil_error_eq(1)
  show ?thesis by (simp add: fst_Promisify)
qed



end
